theory Spec2Isabelle
  imports Main "HOL-Library.Word"
begin

unbundle bit_operations_syntax

section \<open>Data model\<close>

text \<open>
  \<^verbatim>\<open>struct ranxoshi256 { uint64_t s[4]; }\<close>: the array has exactly four cells, so
  the state is a record of four 64-bit words, cell \<open>i\<close> of the array being field \<open>si\<close>.
  Indexed reads and writes \<^verbatim>\<open>ctx->s[i]\<close> go through \<open>s_get\<close> and \<open>s_set\<close>.
\<close>

type_synonym uint64_t = "64 word"
type_synonym uchar = "8 word"

record ranxoshi256 =
  s0 :: uint64_t
  s1 :: uint64_t
  s2 :: uint64_t
  s3 :: uint64_t

definition s_get :: "ranxoshi256 \<Rightarrow> nat \<Rightarrow> uint64_t" where
  "s_get ctx i = (if i = 0 then s0 ctx else if i = 1 then s1 ctx
                  else if i = 2 then s2 ctx else s3 ctx)"

definition s_set :: "nat \<Rightarrow> uint64_t \<Rightarrow> ranxoshi256 \<Rightarrow> ranxoshi256" where
  "s_set i v ctx = (if i = 0 then ctx\<lparr>s0 := v\<rparr> else if i = 1 then ctx\<lparr>s1 := v\<rparr>
                    else if i = 2 then ctx\<lparr>s2 := v\<rparr> else ctx\<lparr>s3 := v\<rparr>)"

section \<open>The rotation helper\<close>

text \<open>
  \<^verbatim>\<open>return (x << k) | (x >> (64 - k));\<close> The amount \<open>k\<close> is an \<^verbatim>\<open>int\<close> in the source;
  both shifts are defined in C only for \<open>0 < k < 64\<close>, so the model takes \<open>k\<close> as a
  natural number. The library calls the helper with 7 and 45.
\<close>

definition ranxoshi256Rotate :: "uint64_t \<Rightarrow> nat \<Rightarrow> uint64_t" where
  "ranxoshi256Rotate x k = (push_bit k x) OR (drop_bit (64 - k) x)"

section \<open>Seeding\<close>

text \<open>
  The seed \<^verbatim>\<open>const unsigned char s[32]\<close> is a list of bytes; the loop body reads
  cells \<open>8 i .. 8 i + 7\<close>, widens each to 64 bits, shifts and ORs them together.
  The source reads 32 bytes whatever it is given; the properties of seeding are
  stated for lists of 32 bytes.
\<close>

definition seed_word :: "uchar list \<Rightarrow> nat \<Rightarrow> uint64_t" where
  "seed_word s i =
     (push_bit 56 (ucast (s ! (i * 8)) :: uint64_t)) OR (push_bit 48 (ucast (s ! (i * 8 + 1)))) OR
     (push_bit 40 (ucast (s ! (i * 8 + 2)))) OR (push_bit 32 (ucast (s ! (i * 8 + 3)))) OR
     (push_bit 24 (ucast (s ! (i * 8 + 4)))) OR (push_bit 16 (ucast (s ! (i * 8 + 5)))) OR
     (push_bit 8 (ucast (s ! (i * 8 + 6)))) OR (ucast (s ! (i * 8 + 7)))"

function seed_loop :: "uchar list \<Rightarrow> nat \<Rightarrow> ranxoshi256 \<Rightarrow> ranxoshi256" where
  "seed_loop s i ctx =
     (if i < 4 then seed_loop s (i + 1) (s_set i (seed_word s i) ctx) else ctx)"
  by pat_completeness auto
termination by (relation "measure (\<lambda>(s, i, ctx). 4 - i)") auto

declare seed_loop.simps [simp del]

definition ranxoshi256Seed :: "ranxoshi256 \<Rightarrow> uchar list \<Rightarrow> ranxoshi256" where
  "ranxoshi256Seed ctx s = seed_loop s 0 ctx"

section \<open>The generator step\<close>

text \<open>
  \<open>ranxoshi256Next\<close> returns the output word together with the updated state; the
  assignments are threaded in the order of the source.
\<close>

definition ranxoshi256Next :: "ranxoshi256 \<Rightarrow> uint64_t \<times> ranxoshi256" where
  "ranxoshi256Next ctx =
     (let res = ranxoshi256Rotate (s1 ctx * 5) 7 * 9;
          t = push_bit 17 (s1 ctx);
          ctx = ctx\<lparr>s2 := s2 ctx XOR s0 ctx\<rparr>;
          ctx = ctx\<lparr>s3 := s3 ctx XOR s1 ctx\<rparr>;
          ctx = ctx\<lparr>s1 := s1 ctx XOR s2 ctx\<rparr>;
          ctx = ctx\<lparr>s0 := s0 ctx XOR s3 ctx\<rparr>;
          ctx = ctx\<lparr>s2 := s2 ctx XOR t\<rparr>;
          ctx = ctx\<lparr>s3 := ranxoshi256Rotate (s3 ctx) 45\<rparr>
      in (res, ctx))"

section \<open>The jump\<close>

definition jump :: "uint64_t list" where
  "jump = [0x180EC6D33CFD0ABA, 0xD5A61266F0C9392C, 0xA9582618E03FC9AA, 0x39ABDC4529B1661C]"

text \<open>
  The loop state is the four local accumulators (kept in a record of the same shape)
  and the generator. \<open>jump_bits\<close> is the inner loop over \<open>b\<close>, \<open>jump_words\<close> the outer
  loop over \<open>i\<close>.
\<close>

function jump_bits :: "nat \<Rightarrow> nat \<Rightarrow> ranxoshi256 \<times> ranxoshi256 \<Rightarrow> ranxoshi256 \<times> ranxoshi256" where
  "jump_bits i b (acc, ctx) =
     (if b < 64 then
        let acc = (if (jump ! i) AND (push_bit b 1) \<noteq> 0
                   then \<lparr>s0 = s0 acc XOR s0 ctx, s1 = s1 acc XOR s1 ctx,
                         s2 = s2 acc XOR s2 ctx, s3 = s3 acc XOR s3 ctx\<rparr>
                   else acc)
        in jump_bits i (b + 1) (acc, snd (ranxoshi256Next ctx))
      else (acc, ctx))"
  by pat_completeness auto
termination by (relation "measure (\<lambda>(i, b, st). 64 - b)") auto

declare jump_bits.simps [simp del]

function jump_words :: "nat \<Rightarrow> ranxoshi256 \<times> ranxoshi256 \<Rightarrow> ranxoshi256 \<times> ranxoshi256" where
  "jump_words i st =
     (if i < length jump then jump_words (i + 1) (jump_bits i 0 st) else st)"
  by pat_completeness auto
termination by (relation "measure (\<lambda>(i, st). length jump - i)") auto

declare jump_words.simps [simp del]

definition ranxoshi256Jump :: "ranxoshi256 \<Rightarrow> ranxoshi256" where
  "ranxoshi256Jump ctx =
     (let (acc, ctx) = jump_words 0 (\<lparr>s0 = 0, s1 = 0, s2 = 0, s3 = 0\<rparr>, ctx)
      in ctx\<lparr>s0 := s0 acc, s1 := s1 acc, s2 := s2 acc, s3 := s3 acc\<rparr>)"

section \<open>Derived notions used by the properties\<close>

text \<open>The all-zero generator state.\<close>

definition zero_state :: ranxoshi256 where
  "zero_state = \<lparr>s0 = 0, s1 = 0, s2 = 0, s3 = 0\<rparr>"

text \<open>The state transition of \<open>ranxoshi256Next\<close>, with the output dropped.\<close>

definition next_state :: "ranxoshi256 \<Rightarrow> ranxoshi256" where
  "next_state ctx = snd (ranxoshi256Next ctx)"

text \<open>Calling \<open>ranxoshi256Next\<close> \<open>n\<close> times in a row: the outputs in order, and the final state.\<close>

fun run_next :: "nat \<Rightarrow> ranxoshi256 \<Rightarrow> uint64_t list \<times> ranxoshi256" where
  "run_next 0 ctx = ([], ctx)"
| "run_next (Suc n) ctx =
     (let (r, ctx) = ranxoshi256Next ctx; (rs, ctx) = run_next n ctx in (r # rs, ctx))"

text \<open>Word-wise XOR of two states.\<close>

definition xor_state :: "ranxoshi256 \<Rightarrow> ranxoshi256 \<Rightarrow> ranxoshi256" where
  "xor_state a c =
     \<lparr>s0 = s0 a XOR s0 c, s1 = s1 a XOR s1 c, s2 = s2 a XOR s2 c, s3 = s3 a XOR s3 c\<rparr>"

text \<open>
  The value of a byte string read as a big-endian number: the first byte is the most
  significant one.
\<close>

definition be_value :: "uchar list \<Rightarrow> nat" where
  "be_value bs = foldl (\<lambda>acc b. acc * 256 + unat b) 0 bs"

text \<open>The same reading carried out on 64-bit words by shift and OR.\<close>

definition horner_bytes :: "uchar list \<Rightarrow> uint64_t" where
  "horner_bytes bs = foldl (\<lambda>acc b. push_bit 8 acc OR ucast b) 0 bs"

text \<open>The \<open>k\<close> low base-256 digits of a number, most significant first.\<close>

fun nat_bytes :: "nat \<Rightarrow> nat \<Rightarrow> uchar list" where
  "nat_bytes 0 n = []"
| "nat_bytes (Suc k) n = nat_bytes k (n div 256) @ [of_nat (n mod 256)]"

text \<open>The 32 bytes that seed a given state.\<close>

definition state_bytes :: "ranxoshi256 \<Rightarrow> uchar list" where
  "state_bytes st = nat_bytes 8 (unat (s0 st)) @ nat_bytes 8 (unat (s1 st)) @
     nat_bytes 8 (unat (s2 st)) @ nat_bytes 8 (unat (s3 st))"

text \<open>The seed \<open>0x00, 0x01, \<dots>, 0x1F\<close>.\<close>

definition seed_0_to_31 :: "uchar list" where
  "seed_0_to_31 = [0, 1, 2, 3, 4, 5, 6, 7, 8, 9, 10, 11, 12, 13, 14, 15,
     16, 17, 18, 19, 20, 21, 22, 23, 24, 25, 26, 27, 28, 29, 30, 31]"

text \<open>
  The jump as the specification words it: an accumulator starting at zero; for each
  constant in order and each bit from the least to the most significant, the
  accumulator absorbs the current state when the bit is set, and the generator
  advances one step in either case; the accumulator is the new state.
\<close>

definition jump_spec_bit ::
  "uint64_t \<Rightarrow> nat \<Rightarrow> ranxoshi256 \<times> ranxoshi256 \<Rightarrow> ranxoshi256 \<times> ranxoshi256" where
  "jump_spec_bit c b st =
     ((if bit c b then xor_state (fst st) (snd st) else fst st), next_state (snd st))"

definition jump_spec :: "ranxoshi256 \<Rightarrow> ranxoshi256" where
  "jump_spec ctx =
     fst (fold (\<lambda>c. fold (jump_spec_bit c) [0..<64])
            [0x180EC6D33CFD0ABA, 0xD5A61266F0C9392C, 0xA9582618E03FC9AA, 0x39ABDC4529B1661C]
            (zero_state, ctx))"

section \<open>Polynomials in the state transition\<close>

text \<open>
  The state transition is linear over the field of two elements when a state is read
  as a vector of 256 bits. A list of bits, lowest coefficient first, stands for a
  polynomial; \<open>ev q s\<close> applies the polynomial \<open>q\<close> of the transition to the state \<open>s\<close>:
  the XOR of the \<open>i\<close>-th successors of \<open>s\<close> over the set bits \<open>i\<close> of \<open>q\<close>.
\<close>

fun ev :: "bool list \<Rightarrow> ranxoshi256 \<Rightarrow> ranxoshi256" where
  "ev [] s = zero_state"
| "ev (b # q) s = xor_state (if b then s else zero_state) (ev q (next_state s))"

text \<open>The 256 bits of the four jump constants, in the order the jump loop visits them.\<close>

definition jump_bits_lsb :: "bool list" where
  "jump_bits_lsb = concat (map (\<lambda>c. map (bit c) [0..<64]) jump)"

text \<open>Position-wise XOR of two bit lists, cut to the shorter one.\<close>

fun xorl :: "bool list \<Rightarrow> bool list \<Rightarrow> bool list" where
  "xorl (True # xs) (True # ys) = False # xorl xs ys"
| "xorl (True # xs) (False # ys) = True # xorl xs ys"
| "xorl (False # xs) (y # ys) = y # xorl xs ys"
| "xorl [] ys = []"
| "xorl xs [] = []"

text \<open>
  Polynomials are written down as hexadecimal strings, most significant digit and
  bit first; \<open>evm\<close> is \<open>ev\<close> for this order.
\<close>

fun hexbits :: "char \<Rightarrow> bool list" where
  "hexbits c = (if c = CHR ''0'' then [False, False, False, False]
    else if c = CHR ''1'' then [False, False, False, True]
    else if c = CHR ''2'' then [False, False, True, False]
    else if c = CHR ''3'' then [False, False, True, True]
    else if c = CHR ''4'' then [False, True, False, False]
    else if c = CHR ''5'' then [False, True, False, True]
    else if c = CHR ''6'' then [False, True, True, False]
    else if c = CHR ''7'' then [False, True, True, True]
    else if c = CHR ''8'' then [True, False, False, False]
    else if c = CHR ''9'' then [True, False, False, True]
    else if c = CHR ''a'' then [True, False, True, False]
    else if c = CHR ''b'' then [True, False, True, True]
    else if c = CHR ''c'' then [True, True, False, False]
    else if c = CHR ''d'' then [True, True, False, True]
    else if c = CHR ''e'' then [True, True, True, False]
    else [True, True, True, True])"

fun hexpoly :: "string \<Rightarrow> bool list" where
  "hexpoly [] = []"
| "hexpoly (c # cs) = hexbits c @ hexpoly cs"

definition evm :: "bool list \<Rightarrow> ranxoshi256 \<Rightarrow> ranxoshi256" where
  "evm m s = ev (rev m) s"

text \<open>
  The characteristic polynomial of the transition is \<open>x\<^sup>2\<^sup>5\<^sup>6 + c_low\<close>; \<open>c_low\<close> holds
  its 256 lower coefficients.
\<close>

definition c_low :: "bool list" where
  "c_low = hexpoly ''0003c03c3f3ecb1904b4edcf26259f850280002bcefd1a5e9d116f2bb0f0f001''"

definition c_lsb :: "bool list" where
  "c_lsb = rev (True # c_low)"

text \<open>
  Arithmetic modulo the characteristic polynomial on lists of 256 bits, highest
  coefficient first: \<open>mulx\<close> multiplies by \<open>x\<close>, \<open>shl_xor xs c\<close> is \<open>xs\<close> shifted by one
  place XOR \<open>c\<close>, \<open>pmh\<close> is Horner's scheme for the product, \<open>sq\<close> the square.
\<close>

fun shl_xor :: "bool list \<Rightarrow> bool list \<Rightarrow> bool list" where
  "shl_xor [] cs = cs"
| "shl_xor (True # xs) (True # cs) = False # shl_xor xs cs"
| "shl_xor (True # xs) (False # cs) = True # shl_xor xs cs"
| "shl_xor (False # xs) (c # cs) = c # shl_xor xs cs"
| "shl_xor xs [] = []"

fun mulx :: "bool list \<Rightarrow> bool list \<Rightarrow> bool list" where
  "mulx c [] = []"
| "mulx c (True # xs) = shl_xor xs c"
| "mulx c (False # xs) = xs @ [False]"

fun pmh :: "bool list \<Rightarrow> bool list \<Rightarrow> bool list \<Rightarrow> bool list \<Rightarrow> bool list" where
  "pmh c [] b r = r"
| "pmh c (True # as) b r = pmh c as b (xorl (mulx c r) b)"
| "pmh c (False # as) b r = pmh c as b (mulx c r)"

definition pmul :: "bool list \<Rightarrow> bool list \<Rightarrow> bool list" where
  "pmul a b = pmh c_low a b (xorl c_low c_low)"

definition sq :: "bool list \<Rightarrow> bool list" where
  "sq q = pmul q q"

fun sq_iter :: "nat \<Rightarrow> bool list \<Rightarrow> bool list" where
  "sq_iter 0 q = q"
| "sq_iter (Suc n) q = sq_iter n (sq q)"

definition sq16 :: "bool list \<Rightarrow> bool list" where
  "sq16 q = sq (sq (sq (sq (sq (sq (sq (sq (sq (sq (sq (sq (sq (sq (sq (sq q)))))))))))))))"

text \<open>The polynomials \<open>x\<close> and \<open>1\<close>, and the polynomial of the jump constants.\<close>

definition xpoly :: "bool list" where
  "xpoly = hexpoly ''0000000000000000000000000000000000000000000000000000000000000002''"

definition one_poly :: "bool list" where
  "one_poly = hexpoly ''0000000000000000000000000000000000000000000000000000000000000001''"

definition jump_poly :: "bool list" where
  "jump_poly = hexpoly ''39abdc4529b1661ca9582618e03fc9aad5a61266f0c9392c180ec6d33cfd0aba''"

text \<open>
  \<open>invs_ok e p xk us\<close>: the strings \<open>us\<close> are, in order, inverses of \<open>p + xk\<close>,
  \<open>p + x xk\<close>, \<open>p + x\<^sup>2 xk\<close>, \<dots> modulo the characteristic polynomial (\<open>e\<close> is the
  polynomial 1).
\<close>

fun invs_ok :: "bool list \<Rightarrow> bool list \<Rightarrow> bool list \<Rightarrow> string list \<Rightarrow> bool" where
  "invs_ok e p xk [] = True"
| "invs_ok e p xk (u # us) =
     (pmul (hexpoly u) (xorl p xk) = e \<and> invs_ok e p (mulx c_low xk) us)"

section \<open>States as bit lists\<close>

text \<open>
  A mirror of the state and of the state transition on lists of 64 bits, least
  significant bit first, on which the transition can be evaluated by rewriting:
  \<open>wd\<close> reads such a list as a word, \<open>st_of\<close> four of them as a state, \<open>t_sh\<close> is the
  transition, \<open>ev_sh q s acc\<close> adds to \<open>acc\<close> the polynomial \<open>q\<close> applied to \<open>s\<close>.
\<close>

type_synonym sh = "bool list \<times> bool list \<times> bool list \<times> bool list"

definition wd :: "bool list \<Rightarrow> uint64_t" where
  "wd bs = horner_sum of_bool 2 bs"

fun st_of :: "sh \<Rightarrow> ranxoshi256" where
  "st_of (a, b, c, d) = \<lparr>s0 = wd a, s1 = wd b, s2 = wd c, s3 = wd d\<rparr>"

fun wf_sh :: "sh \<Rightarrow> bool" where
  "wf_sh (a, b, c, d) \<longleftrightarrow> length a = 64 \<and> length b = 64 \<and> length c = 64 \<and> length d = 64"

definition shl17 :: "bool list \<Rightarrow> bool list" where
  "shl17 xs = replicate 17 False @ xs"

definition rot45 :: "bool list \<Rightarrow> bool list" where
  "rot45 xs = drop 19 xs @ take 19 xs"

definition t_comb :: "bool list \<Rightarrow> bool list \<Rightarrow> bool list \<Rightarrow> bool list \<Rightarrow> sh" where
  "t_comb a b u v = (xorl a v, xorl b u, xorl u (shl17 b), rot45 v)"

fun t_sh :: "sh \<Rightarrow> sh" where
  "t_sh (a, b, c, d) = t_comb a b (xorl c a) (xorl d b)"

fun xor_sh :: "sh \<Rightarrow> sh \<Rightarrow> sh" where
  "xor_sh (a, b, c, d) (a', b', c', d') = (xorl a a', xorl b b', xorl c c', xorl d d')"

fun ev_sh :: "bool list \<Rightarrow> sh \<Rightarrow> sh \<Rightarrow> sh" where
  "ev_sh [] s acc = acc"
| "ev_sh (True # q) s acc = ev_sh q (t_sh s) (xor_sh acc s)"
| "ev_sh (False # q) s acc = ev_sh q (t_sh s) acc"

definition z64 :: "bool list" where
  "z64 = hexpoly ''0000000000000000''"

definition emb0 :: "bool list \<Rightarrow> sh" where "emb0 v = (v, z64, z64, z64)"

definition emb1 :: "bool list \<Rightarrow> sh" where "emb1 v = (z64, v, z64, z64)"

definition emb2 :: "bool list \<Rightarrow> sh" where "emb2 v = (z64, z64, v, z64)"

definition emb3 :: "bool list \<Rightarrow> sh" where "emb3 v = (z64, z64, z64, v)"

text \<open>The list with a single set bit at place \<open>i\<close>.\<close>

definition unit_bits :: "nat \<Rightarrow> bool list" where
  "unit_bits i = replicate i False @ True # replicate (63 - i) False"

text \<open>
  \<open>units_ok q f fuel pre post\<close>: the polynomial \<open>q\<close> sends to zero each of the vectors
  \<open>f (pre @ True # post')\<close>, the \<open>True\<close> moving up one place per element of \<open>fuel\<close>.
\<close>

fun units_ok :: "bool list \<Rightarrow> (bool list \<Rightarrow> sh) \<Rightarrow> bool list \<Rightarrow> bool list \<Rightarrow> bool list \<Rightarrow> bool" where
  "units_ok q f [] pre post = True"
| "units_ok q f (u # fuel) pre [] = True"
| "units_ok q f (u # fuel) pre (x # post) =
     (ev_sh q (f (pre @ True # post)) (z64, z64, z64, z64) = (z64, z64, z64, z64) \<and>
      units_ok q f fuel (False # pre) post)"

section \<open>The output word and the state transition\<close>

text \<open>The helper is the left rotation of 64-bit words, for every amount below 64.\<close>

lemma rotate_is_word_rotl:
  assumes "k < 64"
  shows "ranxoshi256Rotate x k = word_rotl k x"
proof (rule bit_word_eqI)
  fix n assume "n < LENGTH(64)"
  then have n: "n < 64" by simp
  have l: "bit (ranxoshi256Rotate x k) n \<longleftrightarrow> (k \<le> n \<and> bit x (n - k)) \<or> bit x (64 - k + n)"
    using n by (simp add: ranxoshi256Rotate_def bit_or_iff bit_push_bit_iff bit_drop_bit_eq)
  have r: "bit (word_rotl k x) n \<longleftrightarrow> bit x ((n + (64 - k)) mod 64)"
    using n assms by (simp add: bit_word_rotl_iff)
  show "bit (ranxoshi256Rotate x k) n = bit (word_rotl k x) n"
  proof (cases "k \<le> n")
    case True
    then have m: "(n + (64 - k)) mod 64 = n - k" using n assms
      by (simp add: mod_if)
    from True n have "64 \<le> 64 - k + n" by simp
    then have "\<not> bit x (64 - k + n)" by (auto dest: bit_imp_le_length)
    with True show ?thesis by (simp only: l r m) simp
  next
    case False
    then have m: "(n + (64 - k)) mod 64 = 64 - k + n" using n assms by simp
    with False show ?thesis by (simp only: l r m) simp
  qed
qed

text \<open>
  C1. For every state, \<open>ranxoshi256Next\<close> returns the old \<open>s1\<close> times 5, rotated left by
  7, times 9 (the multiplications are those of 64-bit words, which wrap around), and
  leaves the state that the assignments of the source produce in their order, written
  here in terms of the old words: \<open>s2\<close> and \<open>s3\<close> first absorb \<open>s0\<close> and \<open>s1\<close>, then \<open>s1\<close>
  and \<open>s0\<close> absorb the new \<open>s2\<close> and \<open>s3\<close>, then \<open>s2\<close> absorbs the old \<open>s1\<close> shifted left
  by 17 and \<open>s3\<close> is rotated left by 45.
\<close>

theorem next_spec:
  "ranxoshi256Next ctx =
     (word_rotl 7 (s1 ctx * 5) * 9,
      ctx\<lparr>s0 := s0 ctx XOR (s3 ctx XOR s1 ctx),
          s1 := s1 ctx XOR (s2 ctx XOR s0 ctx),
          s2 := (s2 ctx XOR s0 ctx) XOR push_bit 17 (s1 ctx),
          s3 := word_rotl 45 (s3 ctx XOR s1 ctx)\<rparr>)"
  by (simp add: ranxoshi256Next_def Let_def rotate_is_word_rotl)

section \<open>Rotation round trip\<close>

lemma rotate_round_trip_aux:
  "0 < k \<Longrightarrow> k < 64 \<Longrightarrow> ranxoshi256Rotate (ranxoshi256Rotate x k) (64 - k) = x"
  unfolding ranxoshi256Rotate_def
  by (rule bit_word_eqI) (auto simp add: bit_simps)

text \<open>
  C9. Rotating by \<open>k\<close> and then by \<open>64 - k\<close> gives the word back, for every 64-bit
  word and every \<open>k\<close> from 1 to 63.
\<close>

theorem rotate_round_trip:
  "0 < k \<Longrightarrow> k < 64 \<Longrightarrow> ranxoshi256Rotate (ranxoshi256Rotate x k) (64 - k) = x"
  unfolding ranxoshi256Rotate_def
  by (rule bit_word_eqI) (auto simp add: bit_simps)

theorem rotate_round_trip_witness:
  "(0::nat) < 7 \<and> (7::nat) < 64 \<and>
   ranxoshi256Rotate (ranxoshi256Rotate 0xAAAAAAAAAAAAAAAA 7) (64 - 7) = 0xAAAAAAAAAAAAAAAA"
  using rotate_round_trip [of 7 "0xAAAAAAAAAAAAAAAA"] by simp

section \<open>Seeding is big-endian\<close>

lemma bit_uchar_high [simp]: "8 \<le> n \<Longrightarrow> \<not> bit (b :: uchar) n"
  by (auto dest: bit_imp_le_length)

lemma seed_word_horner:
  "seed_word s i =
     push_bit 8 (push_bit 8 (push_bit 8 (push_bit 8 (push_bit 8 (push_bit 8 (push_bit 8
       (ucast (s ! (i * 8))) OR ucast (s ! (i * 8 + 1))) OR ucast (s ! (i * 8 + 2)))
         OR ucast (s ! (i * 8 + 3))) OR ucast (s ! (i * 8 + 4))) OR ucast (s ! (i * 8 + 5)))
         OR ucast (s ! (i * 8 + 6))) OR ucast (s ! (i * 8 + 7))"
  unfolding seed_word_def
  by (simp add: push_bit_or ac_simps)

lemma unat_shift_or_byte:
  fixes hi :: uint64_t and b :: uchar
  assumes "unat hi < 2 ^ 56"
  shows "unat (push_bit 8 hi OR ucast b) = unat hi * 256 + unat b"
proof -
  have "push_bit 8 hi AND (ucast b :: uint64_t) = 0"
    by (rule bit_word_eqI) (auto simp add: bit_simps)
  then have "push_bit 8 hi OR (ucast b :: uint64_t) = push_bit 8 hi + ucast b"
    by (simp add: disjunctive_add_eq_or)
  moreover have "unat (push_bit 8 hi) = unat hi * 256"
    using assms by (simp add: push_bit_eq_mult unat_mult_lem [THEN iffD1])
  moreover have "unat b < 256" using unsigned_less [of b] by simp
  moreover from this have "unat (ucast b :: uint64_t) = unat b"
    by (simp add: unsigned_ucast_eq take_bit_nat_eq_self) 
  ultimately show ?thesis using assms
    by (simp add: unat_add_lem [THEN iffD1])
qed

lemma be_value_bound: "be_value bs < 256 ^ length bs"
proof (induction bs rule: rev_induct)
  case Nil
  show ?case by (simp add: be_value_def)
next
  case (snoc b bs)
  have "unat b < 256" using unsigned_less [of b] by simp
  moreover have "be_value (bs @ [b]) = be_value bs * 256 + unat b"
    by (simp add: be_value_def)
  moreover have "be_value bs + 1 \<le> 256 ^ length bs" using snoc by simp
  then have "(be_value bs + 1) * 256 \<le> 256 ^ length bs * 256"
    by (rule mult_le_mono1)
  ultimately show ?case by simp
qed

lemma unat_horner_bytes:
  "length bs \<le> 8 \<Longrightarrow> unat (horner_bytes bs) = be_value bs"
proof (induction bs rule: rev_induct)
  case Nil
  show ?case by (simp add: horner_bytes_def be_value_def)
next
  case (snoc b bs)
  then have ih: "unat (horner_bytes bs) = be_value bs" and len: "length bs \<le> 7" by simp_all
  have "be_value bs < 256 ^ length bs" by (rule be_value_bound)
  also have "(256::nat) ^ length bs \<le> 256 ^ 7" using len by (intro power_increasing) simp_all
  finally have "unat (horner_bytes bs) < 2 ^ 56" using ih by simp
  then have "unat (push_bit 8 (horner_bytes bs) OR ucast b) = unat (horner_bytes bs) * 256 + unat b"
    by (rule unat_shift_or_byte)
  then show ?case using ih by (simp add: horner_bytes_def be_value_def)
qed

lemma seed_word_horner_bytes:
  "seed_word s i = horner_bytes [s ! (i * 8), s ! (i * 8 + 1), s ! (i * 8 + 2), s ! (i * 8 + 3),
      s ! (i * 8 + 4), s ! (i * 8 + 5), s ! (i * 8 + 6), s ! (i * 8 + 7)]"
  by (simp add: seed_word_def horner_bytes_def push_bit_or ac_simps)

lemma take8_drop:
  assumes "i * 8 + 8 \<le> length s"
  shows "take 8 (drop (i * 8) s) =
     [s ! (i * 8), s ! (i * 8 + 1), s ! (i * 8 + 2), s ! (i * 8 + 3),
      s ! (i * 8 + 4), s ! (i * 8 + 5), s ! (i * 8 + 6), s ! (i * 8 + 7)]"
proof -
  have "take 8 (drop (i * 8) s) = map (\<lambda>j. s ! (i * 8 + j)) [0..<8]"
    using assms by (intro nth_equalityI) simp_all
  also have "[0..<8] = [0, 1, 2, 3, 4, 5, 6, 7 :: nat]"
    by (simp add: upt_rec)
  finally show ?thesis by simp
qed

lemma be_value_seed_word:
  "i * 8 + 8 \<le> length s \<Longrightarrow> unat (seed_word s i) = be_value (take 8 (drop (i * 8) s))"
  by (simp only: take8_drop seed_word_horner_bytes) (simp add: unat_horner_bytes)

lemma seed_state:
  "ranxoshi256Seed ctx s =
     \<lparr>s0 = seed_word s 0, s1 = seed_word s 1, s2 = seed_word s 2, s3 = seed_word s 3\<rparr>"
  by (simp add: ranxoshi256Seed_def seed_loop.simps s_set_def numeral_2_eq_2 numeral_3_eq_3)

lemma s_get_seed:
  "i < 4 \<Longrightarrow> s_get (ranxoshi256Seed ctx s) i = seed_word s i"
proof -
  assume "i < 4"
  then have "i = 0 \<or> i = 1 \<or> i = 2 \<or> i = 3" by arith
  then show ?thesis by (auto simp add: seed_state s_get_def)
qed

text \<open>
  C2. For a seed of 32 bytes and \<open>i < 4\<close>, cell \<open>i\<close> of the state after seeding is the
  number that the bytes \<open>8 i, \<dots>, 8 i + 7\<close> of the seed spell in big-endian order
  (byte \<open>8 i\<close> the most significant). The right-hand side mentions the seed bytes only:
  neither the previous state nor any byte order of the host enters.
\<close>

theorem seed_big_endian:
  assumes "length s = 32" and "i < 4"
  shows "unat (s_get (ranxoshi256Seed ctx s) i) = be_value (take 8 (drop (i * 8) s))"
proof -
  from assms have "i * 8 + 8 \<le> length s" by simp
  then show ?thesis using assms(2) by (simp only: s_get_seed be_value_seed_word)
qed

theorem seed_big_endian_witness:
  "length seed_0_to_31 = 32 \<and> (1::nat) < 4 \<and>
   unat (s_get (ranxoshi256Seed zero_state seed_0_to_31) 1) = 0x08090A0B0C0D0E0F"
  using seed_big_endian [of seed_0_to_31 1 zero_state]
  by (simp add: seed_0_to_31_def be_value_def)

section \<open>Seeding is a bijection\<close>

lemma be_value_snoc: "be_value (bs @ [b]) = be_value bs * 256 + unat b"
  by (simp add: be_value_def)

lemma be_value_inj:
  "length a = length b \<Longrightarrow> be_value a = be_value b \<Longrightarrow> a = b"
proof (induction a arbitrary: b rule: rev_induct)
  case Nil
  then show ?case by simp
next
  case (snoc x xs)
  then obtain y ys where b: "b = ys @ [y]" by (cases b rule: rev_cases) auto
  have lx: "unat x < 256" and ly: "unat y < 256"
    using unsigned_less [of x] unsigned_less [of y] by simp_all
  from snoc.prems(2) have e: "be_value xs * 256 + unat x = be_value ys * 256 + unat y"
    by (simp add: b be_value_snoc)
  from e lx ly have "(be_value xs * 256 + unat x) div 256 = (be_value ys * 256 + unat y) div 256"
    by simp
  with lx ly have v: "be_value xs = be_value ys" by simp
  with e have "unat x = unat y" by simp
  then have xy: "x = y" by (simp only: word_unat_eq_iff)
  from snoc.prems(1) have "length xs = length ys" by (simp add: b)
  then have "xs = ys" using v by (rule snoc.IH)
  with xy show ?case by (simp add: b)
qed

lemma length_nat_bytes [simp]: "length (nat_bytes k n) = k"
  by (induction k arbitrary: n) simp_all

lemma be_value_nat_bytes: "be_value (nat_bytes k n) = n mod 256 ^ k"
proof (induction k arbitrary: n)
  case 0
  show ?case by (simp add: be_value_def)
next
  case (Suc k)
  have "unat (of_nat (n mod 256) :: uchar) = n mod 256"
    by (simp add: unat_of_nat)
  then have "be_value (nat_bytes (Suc k) n) = (n div 256) mod 256 ^ k * 256 + n mod 256"
    by (simp add: be_value_snoc Suc)
  also have "\<dots> = n mod 256 ^ Suc k"
    by (simp add: mod_mult2_eq)
  finally show ?case .
qed

lemma horner_bytes_nat_bytes: "horner_bytes (nat_bytes 8 (unat w)) = w"
proof -
  have "unat w < 2 ^ 64" using unsigned_less [of w] by simp
  then have "unat w mod 256 ^ 8 = unat w" by simp
  then have "unat (horner_bytes (nat_bytes 8 (unat w))) = unat w"
    by (simp only: unat_horner_bytes [of "nat_bytes 8 (unat w)", unfolded length_nat_bytes, OF order_refl] be_value_nat_bytes)
  then show ?thesis by (simp only: word_unat_eq_iff)
qed

lemma horner_bytes_inj:
  assumes "length a = 8" "length b = 8" "horner_bytes a = horner_bytes b"
  shows "a = b"
proof -
  have "be_value a = be_value b" using assms unat_horner_bytes [of a] unat_horner_bytes [of b] by simp
  with assms(1,2) show ?thesis by (simp add: be_value_inj)
qed

lemma seed_word_chunk:
  "i * 8 + 8 \<le> length s \<Longrightarrow> seed_word s i = horner_bytes (take 8 (drop (i * 8) s))"
  by (simp only: take8_drop seed_word_horner_bytes)

lemma chunks_eq:
  assumes la: "length a = 32" and lb: "length b = 32"
    and ch: "\<And>i. i < 4 \<Longrightarrow> take 8 (drop (i * 8) a) = take 8 (drop (i * 8) b)"
  shows "a = b"
proof (rule nth_equalityI)
  show "length a = length b" using la lb by simp
next
  fix k assume "k < length a"
  then have k: "k < 32" using la by simp
  then have i: "k div 8 < 4" by simp
  have "a ! k = take 8 (drop (k div 8 * 8) a) ! (k mod 8)"
    using k la by simp
  also have "\<dots> = take 8 (drop (k div 8 * 8) b) ! (k mod 8)"
    by (simp only: ch [OF i])
  also have "\<dots> = b ! k"
    using k lb by simp
  finally show "a ! k = b ! k" .
qed

lemma seed_inj:
  assumes la: "length a = 32" and lb: "length b = 32"
    and eq: "ranxoshi256Seed c a = ranxoshi256Seed c' b"
  shows "a = b"
proof (rule chunks_eq [OF la lb])
  fix i :: nat assume i: "i < 4"
  then have bnd: "i * 8 + 8 \<le> length a" "i * 8 + 8 \<le> length b" using la lb by simp_all
  from eq have "s_get (ranxoshi256Seed c a) i = s_get (ranxoshi256Seed c' b) i" by simp
  then have "seed_word a i = seed_word b i" using i by (simp only: s_get_seed)
  then have "horner_bytes (take 8 (drop (i * 8) a)) = horner_bytes (take 8 (drop (i * 8) b))"
    using bnd by (simp only: seed_word_chunk)
  moreover have "length (take 8 (drop (i * 8) a)) = 8" "length (take 8 (drop (i * 8) b)) = 8"
    using bnd by simp_all
  ultimately show "take 8 (drop (i * 8) a) = take 8 (drop (i * 8) b)"
    by (simp only: horner_bytes_inj)
qed

lemma length_state_bytes [simp]: "length (state_bytes st) = 32"
  by (simp add: state_bytes_def)

lemma seed_state_bytes: "ranxoshi256Seed c (state_bytes st) = st"
proof -
  have "seed_word (state_bytes st) 0 = s0 st" "seed_word (state_bytes st) 1 = s1 st"
    "seed_word (state_bytes st) 2 = s2 st" "seed_word (state_bytes st) 3 = s3 st"
    by (simp_all add: seed_word_chunk) (simp_all add: state_bytes_def horner_bytes_nat_bytes)
  then show ?thesis by (simp add: seed_state)
qed

text \<open>
  C10. For seeds of 32 bytes, seeding two generators, whatever they held before, gives
  the same state exactly when the seeds are equal: distinct seeds give distinct
  states, and the state after seeding does not depend on the state before. Every
  state is the image of a seed of 32 bytes.
\<close>

theorem seed_bijective:
  "(length a = 32 \<and> length b = 32 \<longrightarrow>
      (ranxoshi256Seed c a = ranxoshi256Seed c' b \<longleftrightarrow> a = b)) \<and>
   (\<exists>x. length x = 32 \<and> ranxoshi256Seed c x = st)"
proof (intro conjI impI iffI)
  assume "length a = 32 \<and> length b = 32" and "ranxoshi256Seed c a = ranxoshi256Seed c' b"
  then show "a = b" using seed_inj by blast
next
  assume "a = b"
  then show "ranxoshi256Seed c a = ranxoshi256Seed c' b" by (simp only: seed_state)
next
  show "\<exists>x. length x = 32 \<and> ranxoshi256Seed c x = st"
    using length_state_bytes seed_state_bytes by blast
qed

theorem seed_bijective_witness:
  "length seed_0_to_31 = 32 \<and> length (map of_nat [0..<32] :: uchar list) = 32 \<and>
   ((ranxoshi256Seed zero_state seed_0_to_31 =
       ranxoshi256Seed \<lparr>s0 = 1, s1 = 2, s2 = 3, s3 = 4\<rparr> (map of_nat [0..<32])) =
    (seed_0_to_31 = map of_nat [0..<32]))"
proof -
  have l: "length seed_0_to_31 = 32"
    by (simp add: seed_0_to_31_def)
  have m: "length (map of_nat [0..<32] :: uchar list) = 32"
    by simp
  from seed_bijective [of seed_0_to_31 "map of_nat [0..<32]" zero_state
      "\<lparr>s0 = 1, s1 = 2, s2 = 3, s3 = 4\<rparr>"] l m
  have "(ranxoshi256Seed zero_state seed_0_to_31 =
       ranxoshi256Seed \<lparr>s0 = 1, s1 = 2, s2 = 3, s3 = 4\<rparr> (map of_nat [0..<32])) =
    (seed_0_to_31 = map of_nat [0..<32])"
    by blast
  with l m show ?thesis by (intro conjI)
qed

section \<open>The jump loop\<close>

lemma test_bit_iff: "((c :: uint64_t) AND push_bit b 1 \<noteq> 0) = bit c b"
  by (simp add: bit_iff_and_push_bit_not_eq_0)

lemma jump_bits_step:
  assumes "b < 64"
  shows "jump_bits i b st = jump_bits i (b + 1) (jump_spec_bit (jump ! i) b st)"
proof -
  obtain acc ctx where st: "st = (acc, ctx)" by (cases st)
  show ?thesis
    unfolding st using assms
    by (subst jump_bits.simps)
       (simp only: test_bit_iff jump_spec_bit_def xor_state_def next_state_def Let_def
          if_True fst_conv snd_conv)
qed

lemma jump_bits_done: "\<not> b < 64 \<Longrightarrow> jump_bits i b st = st"
  by (cases st) (simp add: jump_bits.simps)

lemma jump_bits_fold:
  "jump_bits i b st = fold (jump_spec_bit (jump ! i)) [b..<64] st"
proof (induction "64 - b" arbitrary: b st)
  case 0
  then show ?case by (simp add: jump_bits_done)
next
  case (Suc n)
  then have lt: "b < 64" and n: "n = 64 - (b + 1)" by simp_all
  from lt have u: "[b..<64] = b # [b + 1..<64]" by (simp add: upt_rec)
  show ?case
    by (simp only: jump_bits_step [OF lt] Suc.hyps(1) [OF n] u fold_simps comp_def)
qed

lemma jump_words_step:
  "i < length jump \<Longrightarrow> jump_words i st = jump_words (i + 1) (jump_bits i 0 st)"
  by (subst jump_words.simps) simp

lemma jump_words_done: "\<not> i < length jump \<Longrightarrow> jump_words i st = st"
  by (subst jump_words.simps) simp

lemma jump_words_fold:
  "jump_words i st = fold (\<lambda>c. fold (jump_spec_bit c) [0..<64]) (drop i jump) st"
proof (induction "length jump - i" arbitrary: i st)
  case 0
  then show ?case by (simp add: jump_words_done)
next
  case (Suc n)
  then have lt: "i < length jump" and n: "n = length jump - (i + 1)" by simp_all
  from lt have u: "drop i jump = jump ! i # drop (i + 1) jump"
    by (simp add: Cons_nth_drop_Suc)
  show ?case
    by (simp only: jump_words_step [OF lt] Suc.hyps(1) [OF n] u fold_simps comp_def jump_bits_fold)
qed

text \<open>
  C3. \<open>ranxoshi256Jump\<close> is the algorithm of the specification: accumulator zero, the four
  constants in the given order, the 64 bits of each from the least significant one,
  the current state absorbed when the bit is set, one generator step for every bit,
  and the accumulator written back as the state.
\<close>

theorem jump_algorithm: "ranxoshi256Jump ctx = jump_spec ctx"
  by (simp add: ranxoshi256Jump_def jump_spec_def jump_words_fold zero_state_def [symmetric] jump_def split_beta)

section \<open>The all-zero state\<close>

lemma rotate_zero [simp]: "ranxoshi256Rotate 0 k = 0"
  by (simp add: ranxoshi256Rotate_def)

lemma rotate_eq_zero:
  assumes "0 < k" "k < 64" "ranxoshi256Rotate x k = 0"
  shows "x = 0"
proof -
  have "x = ranxoshi256Rotate (ranxoshi256Rotate x k) (64 - k)"
    using assms(1,2) by (simp only: rotate_round_trip_aux)
  then show ?thesis by (simp only: assms(3) rotate_zero)
qed

lemma inv5: "(5 :: uint64_t) * 0xCCCCCCCCCCCCCCCD = 1"
  by simp

lemma inv9: "(9 :: uint64_t) * 0x8E38E38E38E38E39 = 1"
  by simp

lemma mult5_eq_zero: "(x :: uint64_t) * 5 = 0 \<Longrightarrow> x = 0"
proof -
  assume "x * 5 = 0"
  then have "x * (5 * 0xCCCCCCCCCCCCCCCD) = 0" by (simp only: mult.assoc [symmetric] mult_zero_left)
  then show ?thesis by (simp only: inv5 mult_1_right)
qed

lemma mult9_eq_zero: "(x :: uint64_t) * 9 = 0 \<Longrightarrow> x = 0"
proof -
  assume "x * 9 = 0"
  then have "x * (9 * 0x8E38E38E38E38E39) = 0" by (simp only: mult.assoc [symmetric] mult_zero_left)
  then show ?thesis by (simp only: inv9 mult_1_right)
qed

lemma output_zero_iff: "fst (ranxoshi256Next ctx) = 0 \<longleftrightarrow> s1 ctx = 0"
proof
  assume "fst (ranxoshi256Next ctx) = 0"
  then have "ranxoshi256Rotate (s1 ctx * 5) 7 * 9 = 0"
    by (simp add: ranxoshi256Next_def Let_def)
  then have "ranxoshi256Rotate (s1 ctx * 5) 7 = 0" by (rule mult9_eq_zero)
  then have "s1 ctx * 5 = 0" by (rule rotate_eq_zero [of 7, rotated 2]) simp_all
  then show "s1 ctx = 0" by (rule mult5_eq_zero)
next
  assume "s1 ctx = 0"
  then show "fst (ranxoshi256Next ctx) = 0" by (simp add: ranxoshi256Next_def Let_def)
qed

lemma next_state_eq:
  "next_state ctx =
     \<lparr>s0 = s0 ctx XOR (s3 ctx XOR s1 ctx), s1 = s1 ctx XOR (s2 ctx XOR s0 ctx),
      s2 = (s2 ctx XOR s0 ctx) XOR push_bit 17 (s1 ctx),
      s3 = ranxoshi256Rotate (s3 ctx XOR s1 ctx) 45\<rparr>"
  by (simp add: next_state_def ranxoshi256Next_def Let_def)

lemma next_state_zero [simp]: "next_state zero_state = zero_state"
  by (simp add: next_state_eq zero_state_def)

lemma output_zero_state [simp]: "fst (ranxoshi256Next zero_state) = 0"
  by (simp add: output_zero_iff zero_state_def)

lemma run_next_Suc:
  "run_next (Suc n) ctx =
     (fst (ranxoshi256Next ctx) # fst (run_next n (next_state ctx)), snd (run_next n (next_state ctx)))"
  by (simp add: next_state_def split_beta)

lemma run_next_zero: "run_next n zero_state = (replicate n 0, zero_state)"
  by (induction n) (simp_all add: run_next_Suc del: run_next.simps(2))

lemma seed_word_zero: "i < 4 \<Longrightarrow> seed_word (replicate 32 0) i = 0"
  by (simp add: seed_word_def)

lemma seed_zero: "ranxoshi256Seed ctx (replicate 32 0) = zero_state"
  by (simp add: seed_state seed_word_zero zero_state_def)

lemma xor_eq_zero: "(a :: uint64_t) XOR b = 0 \<longleftrightarrow> a = b"
proof
  assume "a XOR b = 0"
  then have "a XOR (a XOR b) = a" by simp
  then show "a = b" by (simp only: bit.xor_left_self)
qed simp

lemma four_zero_outputs:
  assumes "fst (run_next 4 ctx) = replicate 4 0"
  shows "ctx = zero_state"
proof -
  define c1 where "c1 = next_state ctx"
  define c2 where "c2 = next_state c1"
  define c3 where "c3 = next_state c2"
  have four: "(4::nat) = Suc (Suc (Suc (Suc 0)))" by simp
  from assms have "fst (ranxoshi256Next ctx) = 0" "fst (ranxoshi256Next c1) = 0"
    "fst (ranxoshi256Next c2) = 0" "fst (ranxoshi256Next c3) = 0"
    unfolding four run_next_Suc c1_def c2_def c3_def by simp_all
  then have z: "s1 ctx = 0" "s1 c1 = 0" "s1 c2 = 0" "s1 c3 = 0"
    by (simp_all only: output_zero_iff)
  from z(1,2) have a: "s2 ctx = s0 ctx"
    by (simp add: c1_def next_state_eq xor_eq_zero)
  from z(1) a have c1: "c1 = \<lparr>s0 = s0 ctx XOR s3 ctx, s1 = 0, s2 = 0, s3 = ranxoshi256Rotate (s3 ctx) 45\<rparr>"
    by (simp add: c1_def next_state_eq)
  from z(3) have b: "s0 ctx = s3 ctx"
    by (simp add: c2_def c1 next_state_eq xor_eq_zero)
  from b have c2: "c2 = \<lparr>s0 = ranxoshi256Rotate (s3 ctx) 45, s1 = 0, s2 = 0,
       s3 = ranxoshi256Rotate (ranxoshi256Rotate (s3 ctx) 45) 45\<rparr>"
    by (simp add: c2_def c1 next_state_eq)
  from z(4) have "ranxoshi256Rotate (s3 ctx) 45 = 0"
    by (simp add: c3_def c2 next_state_eq)
  then have "s3 ctx = 0" by (rule rotate_eq_zero [of 45, rotated 2]) simp_all
  with a b z(1) show ?thesis by (simp add: zero_state_def)
qed

text \<open>
  C5. Seeding with 32 zero bytes gives the all-zero state; from the all-zero state any
  number of calls of \<open>ranxoshi256Next\<close> return 0 and leave the state all-zero; and a
  generator returns 0 forever exactly when its state is all-zero.
\<close>

theorem zero_state_degenerate:
  "ranxoshi256Seed ctx (replicate 32 0) = zero_state \<and>
   run_next n zero_state = (replicate n 0, zero_state) \<and>
   ((\<forall>m. fst (run_next m g) = replicate m 0) \<longleftrightarrow> g = zero_state)"
  using four_zero_outputs [of g] by (auto simp add: seed_zero run_next_zero)

section \<open>Determinism\<close>

text \<open>
  C8. Two generators seeded with the same seed of 32 bytes, whatever they held before,
  return the same first \<open>n\<close> outputs for every \<open>n\<close> (10000 included), and the jump takes
  two generators with the same four state words to the same state.
\<close>

theorem seed_determinism:
  "(length S = 32 \<longrightarrow>
      fst (run_next n (ranxoshi256Seed c1 S)) = fst (run_next n (ranxoshi256Seed c2 S))) \<and>
   ((\<forall>i<4. s_get g1 i = s_get g2 i) \<longrightarrow> ranxoshi256Jump g1 = ranxoshi256Jump g2)"
proof (intro conjI impI)
  show "fst (run_next n (ranxoshi256Seed c1 S)) = fst (run_next n (ranxoshi256Seed c2 S))"
    by (simp only: seed_state)
next
  assume a: "\<forall>i<4. s_get g1 i = s_get g2 i"
  from a [rule_format, of 0] a [rule_format, of 1] a [rule_format, of 2] a [rule_format, of 3]
  have "g1 = g2" by (simp add: s_get_def)
  then show "ranxoshi256Jump g1 = ranxoshi256Jump g2" by simp
qed

theorem seed_determinism_witness:
  "length seed_0_to_31 = 32 \<and>
   s_get (ranxoshi256Seed zero_state seed_0_to_31) 0 =
     s_get (ranxoshi256Seed \<lparr>s0 = 1, s1 = 2, s2 = 3, s3 = 4\<rparr> seed_0_to_31) 0 \<and>
   s_get (ranxoshi256Seed zero_state seed_0_to_31) 1 =
     s_get (ranxoshi256Seed \<lparr>s0 = 1, s1 = 2, s2 = 3, s3 = 4\<rparr> seed_0_to_31) 1 \<and>
   s_get (ranxoshi256Seed zero_state seed_0_to_31) 2 =
     s_get (ranxoshi256Seed \<lparr>s0 = 1, s1 = 2, s2 = 3, s3 = 4\<rparr> seed_0_to_31) 2 \<and>
   s_get (ranxoshi256Seed zero_state seed_0_to_31) 3 =
     s_get (ranxoshi256Seed \<lparr>s0 = 1, s1 = 2, s2 = 3, s3 = 4\<rparr> seed_0_to_31) 3 \<and>
   ranxoshi256Jump (ranxoshi256Seed zero_state seed_0_to_31) =
     ranxoshi256Jump (ranxoshi256Seed \<lparr>s0 = 1, s1 = 2, s2 = 3, s3 = 4\<rparr> seed_0_to_31) \<and>
   fst (run_next 10000 (ranxoshi256Seed zero_state seed_0_to_31)) =
     fst (run_next 10000 (ranxoshi256Seed \<lparr>s0 = 1, s1 = 2, s2 = 3, s3 = 4\<rparr> seed_0_to_31))"
proof -
  let ?g1 = "ranxoshi256Seed zero_state seed_0_to_31"
  let ?g2 = "ranxoshi256Seed \<lparr>s0 = 1, s1 = 2, s2 = 3, s3 = 4\<rparr> seed_0_to_31"
  have l: "length seed_0_to_31 = 32"
    by (simp add: seed_0_to_31_def)
  have h: "s_get ?g1 i = s_get ?g2 i" for i
    by (simp only: seed_state)
  note d = seed_determinism [of seed_0_to_31 10000 zero_state
      "\<lparr>s0 = 1, s1 = 2, s2 = 3, s3 = 4\<rparr>" ?g1 ?g2]
  from d l have r: "fst (run_next 10000 ?g1) = fst (run_next 10000 ?g2)"
    by blast
  from d h have j: "ranxoshi256Jump ?g1 = ranxoshi256Jump ?g2"
    by blast
  from l h [of 0] h [of 1] h [of 2] h [of 3] j r show ?thesis
    by (intro conjI)
qed

section \<open>The state transition is linear\<close>

lemma xor_state_zero_left [simp]: "xor_state zero_state s = s"
  by (simp add: xor_state_def zero_state_def)

lemma xor_state_zero_right [simp]: "xor_state s zero_state = s"
  by (simp add: xor_state_def zero_state_def)

lemma xor_state_self [simp]: "xor_state s s = zero_state"
  by (simp add: xor_state_def zero_state_def)

lemma xor_state_assoc: "xor_state (xor_state a b) c = xor_state a (xor_state b c)"
  by (simp add: xor_state_def ac_simps)

lemma xor_state_commute: "xor_state a b = xor_state b a"
  by (simp add: xor_state_def ac_simps)

lemma xor_state_left_commute: "xor_state a (xor_state b c) = xor_state b (xor_state a c)"
  by (simp add: xor_state_def ac_simps)

lemmas xor_state_ac = xor_state_assoc xor_state_commute xor_state_left_commute

lemma xor_state_cancel [simp]: "xor_state a (xor_state a b) = b"
  by (simp add: xor_state_def)

lemma xor_state_eq_zero: "xor_state a b = zero_state \<longleftrightarrow> a = b"
  by (cases a; cases b) (simp add: xor_state_def zero_state_def xor_eq_zero)

lemma rotate_xor:
  assumes "0 < k" "k < 64"
  shows "ranxoshi256Rotate (a XOR b) k = ranxoshi256Rotate a k XOR ranxoshi256Rotate b k"
  unfolding ranxoshi256Rotate_def using assms
  by (intro bit_word_eqI) (auto simp add: bit_simps dest: bit_imp_le_length)

lemma next_state_xor:
  "next_state (xor_state a b) = xor_state (next_state a) (next_state b)"
  by (simp add: next_state_eq xor_state_def rotate_xor push_bit_xor ac_simps)

lemma funpow_next_zero [simp]: "(next_state ^^ n) zero_state = zero_state"
  by (induction n) simp_all

lemma funpow_next_xor:
  "(next_state ^^ n) (xor_state a b) = xor_state ((next_state ^^ n) a) ((next_state ^^ n) b)"
  by (induction n) (simp_all add: next_state_xor)

lemma ev_zero [simp]: "ev q zero_state = zero_state"
  by (induction q) simp_all

lemma ev_xor_state: "ev q (xor_state a b) = xor_state (ev q a) (ev q b)"
proof (induction q arbitrary: a b)
  case Nil
  show ?case by simp
next
  case (Cons x q)
  show ?case by (simp add: Cons next_state_xor xor_state_ac)
qed

lemma ev_next: "ev q (next_state s) = next_state (ev q s)"
proof (induction q arbitrary: s)
  case Nil
  show ?case by simp
next
  case (Cons x q)
  show ?case by (simp add: Cons [symmetric] next_state_xor)
qed

lemma ev_funpow: "ev q ((next_state ^^ n) s) = (next_state ^^ n) (ev q s)"
  by (induction n) (simp_all add: ev_next)

lemma ev_comm: "ev p (ev q s) = ev q (ev p s)"
proof (induction p arbitrary: s)
  case Nil
  show ?case by simp
next
  case (Cons x p)
  have "ev p (next_state (ev q s)) = ev q (ev p (next_state s))"
    by (simp only: ev_next [symmetric] Cons)
  then show ?case by (simp add: ev_xor_state)
qed

lemma ev_append:
  "ev (p @ q) s = xor_state (ev p s) (ev q ((next_state ^^ length p) s))"
proof (induction p arbitrary: s)
  case Nil
  show ?case by simp
next
  case (Cons x p)
  show ?case by (simp add: Cons xor_state_ac funpow_swap1)
qed

lemma ev_replicate_False [simp]: "ev (replicate n False) s = zero_state"
  by (induction n arbitrary: s) simp_all

text \<open>The jump accumulates the polynomial whose coefficients are the bits of the constants.\<close>

lemma fold_bits_ev:
  "fst (fold (\<lambda>b st. ((if b then xor_state (fst st) (snd st) else fst st), next_state (snd st))) q (acc, g))
     = xor_state acc (ev q g)"
proof (induction q arbitrary: acc g)
  case Nil
  show ?case by simp
next
  case (Cons x q)
  show ?case by (simp add: Cons xor_state_ac)
qed

lemma fold_spec_bit:
  "fold (jump_spec_bit c) js st =
     fold (\<lambda>b st. ((if b then xor_state (fst st) (snd st) else fst st), next_state (snd st)))
       (map (bit c) js) st"
  by (induction js arbitrary: st) (simp_all add: jump_spec_bit_def)

lemma fold_spec_words:
  "fold (\<lambda>c. fold (jump_spec_bit c) [0..<64]) cs st =
     fold (\<lambda>b st. ((if b then xor_state (fst st) (snd st) else fst st), next_state (snd st)))
       (concat (map (\<lambda>c. map (bit c) [0..<64]) cs)) st"
  by (induction cs arbitrary: st) (simp_all add: fold_spec_bit)

lemma jump_ev: "ranxoshi256Jump s = ev jump_bits_lsb s"
proof -
  have "ranxoshi256Jump s = jump_spec s"
    by (simp add: ranxoshi256Jump_def jump_spec_def jump_words_fold zero_state_def [symmetric]
        jump_def split_beta)
  also have "\<dots> = ev jump_bits_lsb s"
    unfolding jump_spec_def jump_bits_lsb_def jump_def [symmetric]
    by (simp only: fold_spec_words fold_bits_ev xor_state_zero_left)
  finally show ?thesis .
qed

section \<open>Polynomials, highest coefficient first\<close>

lemma length_xorl [simp]: "length (xorl a b) = min (length a) (length b)"
  by (induction a b rule: xorl.induct) simp_all

lemma xorl_append:
  "length a = length b \<Longrightarrow> xorl (a @ c) (b @ d) = xorl a b @ xorl c d"
  by (induction a b rule: xorl.induct) simp_all

lemma rev_xorl:
  "length a = length b \<Longrightarrow> rev (xorl a b) = xorl (rev a) (rev b)"
proof (induction a b rule: xorl.induct)
  case (1 xs ys)
  then show ?case by (simp add: xorl_append)
next
  case (2 xs ys)
  then show ?case by (simp add: xorl_append)
next
  case (3 xs y ys)
  then show ?case by (cases y) (simp_all add: xorl_append)
qed simp_all

lemma ev_xorl:
  "length a = length b \<Longrightarrow> ev (xorl a b) s = xor_state (ev a s) (ev b s)"
proof (induction a b arbitrary: s rule: xorl.induct)
  case (3 xs y ys)
  then show ?case by (cases y) (simp_all add: xor_state_ac)
qed (simp_all add: xor_state_ac)

lemma evm_xorl:
  "length a = length b \<Longrightarrow> evm (xorl a b) s = xor_state (evm a s) (evm b s)"
  by (simp add: evm_def rev_xorl ev_xorl)

lemma evm_Cons:
  "evm (x # m) s = xor_state (evm m s) (if x then (next_state ^^ length m) s else zero_state)"
  by (simp add: evm_def ev_append)

lemma evm_snoc:
  "evm (m @ [x]) s = xor_state (if x then s else zero_state) (next_state (evm m s))"
  by (simp add: evm_def ev_next)

lemma evm_Nil [simp]: "evm [] s = zero_state"
  by (simp add: evm_def)

lemma evm_zero [simp]: "evm m zero_state = zero_state"
  by (simp add: evm_def)

lemma evm_xor_state: "evm m (xor_state a b) = xor_state (evm m a) (evm m b)"
  by (simp add: evm_def ev_xor_state)

lemma evm_next: "evm m (next_state s) = next_state (evm m s)"
  by (simp add: evm_def ev_next)

lemma evm_funpow: "evm m ((next_state ^^ n) s) = (next_state ^^ n) (evm m s)"
  by (simp add: evm_def ev_funpow)

lemma evm_comm: "evm p (evm q s) = evm q (evm p s)"
  by (simp add: evm_def ev_comm)

lemma shl_xor_xorl:
  "length cs = Suc (length xs) \<Longrightarrow> shl_xor xs cs = xorl (xs @ [False]) cs"
proof (induction xs cs rule: shl_xor.induct)
  case (1 cs)
  then show ?case by (cases cs) auto
qed simp_all

lemma length_c_low: "length c_low = 256"
  by (simp add: c_low_def)

lemma hexbits_simps:
  "hexbits CHR ''0'' = [False, False, False, False]"
  "hexbits CHR ''1'' = [False, False, False, True]"
  "hexbits CHR ''2'' = [False, False, True, False]"
  "hexbits CHR ''3'' = [False, False, True, True]"
  "hexbits CHR ''4'' = [False, True, False, False]"
  "hexbits CHR ''5'' = [False, True, False, True]"
  "hexbits CHR ''6'' = [False, True, True, False]"
  "hexbits CHR ''7'' = [False, True, True, True]"
  "hexbits CHR ''8'' = [True, False, False, False]"
  "hexbits CHR ''9'' = [True, False, False, True]"
  "hexbits CHR ''a'' = [True, False, True, False]"
  "hexbits CHR ''b'' = [True, False, True, True]"
  "hexbits CHR ''c'' = [True, True, False, False]"
  "hexbits CHR ''d'' = [True, True, False, True]"
  "hexbits CHR ''e'' = [True, True, True, False]"
  "hexbits CHR ''f'' = [True, True, True, True]"
  by simp_all

section \<open>The bit-list mirror is faithful\<close>

lemma bit_wd: "bit (wd bs) n \<longleftrightarrow> n < 64 \<and> n < length bs \<and> bs ! n"
  by (auto simp add: wd_def bit_horner_sum_bit_word_iff)

lemma nth_xorl:
  "n < length a \<Longrightarrow> n < length b \<Longrightarrow> xorl a b ! n = (a ! n \<noteq> b ! n)"
proof (induction a b arbitrary: n rule: xorl.induct)
  case (1 xs ys)
  then show ?case by (cases n) simp_all
next
  case (2 xs ys)
  then show ?case by (cases n) simp_all
next
  case (3 xs y ys)
  then show ?case by (cases n) simp_all
qed simp_all

lemma wd_xorl:
  assumes "length a = 64" "64 \<le> length b"
  shows "wd (xorl a b) = wd a XOR wd b"
  using assms by (intro bit_word_eqI) (auto simp add: bit_wd bit_xor_iff nth_xorl)

lemma wd_shl17:
  assumes "length b = 64"
  shows "wd (shl17 b) = push_bit 17 (wd b)"
  using assms
  by (intro bit_word_eqI) (auto simp add: bit_wd bit_push_bit_iff shl17_def nth_append)

lemma wd_rot45:
  assumes "length v = 64"
  shows "wd (rot45 v) = ranxoshi256Rotate (wd v) 45"
  using assms unfolding ranxoshi256Rotate_def rot45_def
  by (intro bit_word_eqI)
     (auto simp add: bit_wd bit_or_iff bit_push_bit_iff bit_drop_bit_eq nth_append ac_simps)

lemma length_shl17 [simp]: "length (shl17 xs) = 17 + length xs"
  by (simp add: shl17_def)

lemma length_rot45 [simp]: "length (rot45 xs) = length xs"
  by (simp add: rot45_def)

lemma t_sh_correct:
  assumes "wf_sh x"
  shows "st_of (t_sh x) = next_state (st_of x) \<and> wf_sh (t_sh x)"
proof -
  obtain a b c d where x: "x = (a, b, c, d)" by (cases x)
  with assms have l: "length a = 64" "length b = 64" "length c = 64" "length d = 64" by simp_all
  then show ?thesis
    by (simp add: x t_comb_def next_state_eq wd_xorl wd_shl17 wd_rot45 ac_simps)
qed

lemma xor_sh_correct:
  assumes "wf_sh x" "wf_sh y"
  shows "st_of (xor_sh x y) = xor_state (st_of x) (st_of y) \<and> wf_sh (xor_sh x y)"
proof -
  obtain a b c d where x: "x = (a, b, c, d)" by (cases x)
  obtain a' b' c' d' where y: "y = (a', b', c', d')" by (cases y)
  from assms show ?thesis by (simp add: x y wd_xorl xor_state_def)
qed

lemma ev_sh_correct:
  assumes "wf_sh s" "wf_sh acc"
  shows "st_of (ev_sh q s acc) = xor_state (st_of acc) (ev q (st_of s))"
  using assms
proof (induction q arbitrary: s acc)
  case Nil
  show ?case by simp
next
  case (Cons x q)
  note t = t_sh_correct [OF Cons.prems(1)]
  note a = xor_sh_correct [OF Cons.prems(2,1)]
  show ?case
  proof (cases x)
    case True
    then show ?thesis
      using Cons.IH [of "t_sh s" "xor_sh acc s"] t a by (simp add: xor_state_ac)
  next
    case False
    then show ?thesis
      using Cons.IH [of "t_sh s" acc] t Cons.prems(2) by simp
  qed
qed

lemma z64_replicate: "z64 = replicate 64 False"
  by (simp add: z64_def replicate_append_same numeral_eq_Suc)

lemma wd_replicate_False [simp]: "wd (replicate n False) = 0"
  by (intro bit_word_eqI) (simp add: bit_wd)

lemma wd_unit:
  assumes "i < 64"
  shows "wd (replicate i False @ True # replicate (63 - i) False) = 2 ^ i"
  using assms
  by (intro bit_word_eqI) (auto simp add: bit_wd bit_exp_iff nth_append nth_Cons')

lemma units_ok_nth:
  assumes "units_ok q f fuel pre post" "j < length fuel" "j < length post"
  shows "ev_sh q (f (replicate j False @ pre @ True # drop (Suc j) post)) (z64, z64, z64, z64)
           = (z64, z64, z64, z64)"
  using assms
proof (induction q f fuel pre post arbitrary: j rule: units_ok.induct)
  case (3 q f u fuel pre x post)
  show ?case
  proof (cases j)
    case 0
    with 3 show ?thesis by simp
  next
    case (Suc j')
    with 3 show ?thesis by (simp add: replicate_app_Cons_same)
  qed
qed simp_all

lemma word64_xor_induct [case_names zero xor unit]:
  fixes w :: uint64_t
  assumes z: "P 0" and x: "\<And>a b. P a \<Longrightarrow> P b \<Longrightarrow> P (a XOR b)"
    and u: "\<And>i. i < 64 \<Longrightarrow> P (2 ^ i)"
  shows "P w"
proof -
  have "n \<le> 64 \<Longrightarrow> P (take_bit n w)" for n
  proof (induction n)
    case 0
    show ?case using z by simp
  next
    case (Suc n)
    have e: "take_bit (Suc n) w = take_bit n w XOR (if bit w n then 2 ^ n else 0)"
      by (rule bit_word_eqI) (auto simp add: bit_simps less_Suc_eq)
    from Suc have "P (take_bit n w)" and "n < 64" by simp_all
    then show ?case unfolding e using x u z by (cases "bit w n") simp_all
  qed
  from this [of 64] have "P (take_bit 64 w)" by simp
  moreover have "take_bit 64 w = w" by (rule take_bit_word_eq_self) simp
  ultimately show ?thesis by simp
qed

lemma units_chunk:
  assumes ok: "units_ok q f fuel (replicate m False) (replicate n False)"
    and mn: "m + n = 64"
    and i: "m \<le> i" "i < m + length fuel" "i < 64"
  shows "ev_sh q (f (unit_bits i)) (z64, z64, z64, z64) = (z64, z64, z64, z64)"
proof -
  from i mn have j: "i - m < length fuel" "i - m < length (replicate n False)" by simp_all
  have "63 - i = n - Suc (i - m)" using i mn by simp
  then have "replicate (i - m) False @ replicate m False @ True # drop (Suc (i - m)) (replicate n False)
      = unit_bits i"
    using i by (simp add: unit_bits_def replicate_add [symmetric])
  with units_ok_nth [OF ok j] show ?thesis by simp
qed

section \<open>The characteristic polynomial annihilates every state\<close>

text \<open>
  The polynomial is applied to each of the 256 states with a single set bit, by
  evaluation on bit lists, sixteen bit positions at a time.
\<close>

lemma shl17_code:
  "shl17 xs = False # False # False # False # False # False # False # False # False #
     False # False # False # False # False # False # False # False # xs"
  by (simp add: shl17_def eval_nat_numeral)

lemma rot45_code:
  "rot45 (x0 # x1 # x2 # x3 # x4 # x5 # x6 # x7 # x8 # x9 # x10 # x11 # x12 # x13 #
      x14 # x15 # x16 # x17 # x18 # xs) =
   xs @ [x0, x1, x2, x3, x4, x5, x6, x7, x8, x9, x10, x11, x12, x13, x14, x15, x16, x17, x18]"
  by (simp add: rot45_def eval_nat_numeral)

lemmas shadow_eval_simps =
  units_ok.simps ev_sh.simps t_sh.simps t_comb_def xor_sh.simps shl17_code rot45_code
  xorl.simps append.simps rev.simps c_lsb_def c_low_def z64_def
  emb0_def emb1_def emb2_def emb3_def hexpoly.simps hexbits_simps simp_thms

lemma units_0_0:
  "units_ok c_lsb emb0 (hexpoly ''0000'') [] (hexpoly ''0000000000000000'')"
  by (simp only: shadow_eval_simps)

lemma units_0_16:
  "units_ok c_lsb emb0 (hexpoly ''0000'') (hexpoly ''0000'') (hexpoly ''000000000000'')"
  by (simp only: shadow_eval_simps)

lemma units_0_32:
  "units_ok c_lsb emb0 (hexpoly ''0000'') (hexpoly ''00000000'') (hexpoly ''00000000'')"
  by (simp only: shadow_eval_simps)

lemma units_0_48:
  "units_ok c_lsb emb0 (hexpoly ''0000'') (hexpoly ''000000000000'') (hexpoly ''0000'')"
  by (simp only: shadow_eval_simps)

lemma units_1_0:
  "units_ok c_lsb emb1 (hexpoly ''0000'') [] (hexpoly ''0000000000000000'')"
  by (simp only: shadow_eval_simps)

lemma units_1_16:
  "units_ok c_lsb emb1 (hexpoly ''0000'') (hexpoly ''0000'') (hexpoly ''000000000000'')"
  by (simp only: shadow_eval_simps)

lemma units_1_32:
  "units_ok c_lsb emb1 (hexpoly ''0000'') (hexpoly ''00000000'') (hexpoly ''00000000'')"
  by (simp only: shadow_eval_simps)

lemma units_1_48:
  "units_ok c_lsb emb1 (hexpoly ''0000'') (hexpoly ''000000000000'') (hexpoly ''0000'')"
  by (simp only: shadow_eval_simps)

lemma units_2_0:
  "units_ok c_lsb emb2 (hexpoly ''0000'') [] (hexpoly ''0000000000000000'')"
  by (simp only: shadow_eval_simps)

lemma units_2_16:
  "units_ok c_lsb emb2 (hexpoly ''0000'') (hexpoly ''0000'') (hexpoly ''000000000000'')"
  by (simp only: shadow_eval_simps)

lemma units_2_32:
  "units_ok c_lsb emb2 (hexpoly ''0000'') (hexpoly ''00000000'') (hexpoly ''00000000'')"
  by (simp only: shadow_eval_simps)

lemma units_2_48:
  "units_ok c_lsb emb2 (hexpoly ''0000'') (hexpoly ''000000000000'') (hexpoly ''0000'')"
  by (simp only: shadow_eval_simps)

lemma units_3_0:
  "units_ok c_lsb emb3 (hexpoly ''0000'') [] (hexpoly ''0000000000000000'')"
  by (simp only: shadow_eval_simps)

lemma units_3_16:
  "units_ok c_lsb emb3 (hexpoly ''0000'') (hexpoly ''0000'') (hexpoly ''000000000000'')"
  by (simp only: shadow_eval_simps)

lemma units_3_32:
  "units_ok c_lsb emb3 (hexpoly ''0000'') (hexpoly ''00000000'') (hexpoly ''00000000'')"
  by (simp only: shadow_eval_simps)

lemma units_3_48:
  "units_ok c_lsb emb3 (hexpoly ''0000'') (hexpoly ''000000000000'') (hexpoly ''0000'')"
  by (simp only: shadow_eval_simps)

lemma hexpoly_zeros:
  "hexpoly ''0000'' = replicate 16 False"
  "hexpoly ''00000000'' = replicate 32 False"
  "hexpoly ''000000000000'' = replicate 48 False"
  "hexpoly ''0000000000000000'' = replicate 64 False"
  by (simp_all add: replicate_append_same numeral_eq_Suc)

lemma units_all:
  assumes c0: "units_ok q f (hexpoly ''0000'') [] (hexpoly ''0000000000000000'')"
    and c1: "units_ok q f (hexpoly ''0000'') (hexpoly ''0000'') (hexpoly ''000000000000'')"
    and c2: "units_ok q f (hexpoly ''0000'') (hexpoly ''00000000'') (hexpoly ''00000000'')"
    and c3: "units_ok q f (hexpoly ''0000'') (hexpoly ''000000000000'') (hexpoly ''0000'')"
    and i: "i < 64"
  shows "ev_sh q (f (unit_bits i)) (z64, z64, z64, z64) = (z64, z64, z64, z64)"
proof -
  note d1 = c1 [unfolded hexpoly_zeros]
  note d2 = c2 [unfolded hexpoly_zeros]
  note d3 = c3 [unfolded hexpoly_zeros]
  have d0: "units_ok q f (replicate 16 False) (replicate 0 False) (replicate 64 False)"
    using c0 by (simp only: hexpoly_zeros replicate_0)
  consider "i < 16" | "16 \<le> i" "i < 32" | "32 \<le> i" "i < 48" | "48 \<le> i" "i < 64"
    using i by linarith
  then show ?thesis
  proof cases
    case 1
    then show ?thesis using units_chunk [OF d0, of i] i by simp
  next
    case 2
    then show ?thesis using units_chunk [OF d1, of i] i by simp
  next
    case 3
    then show ?thesis using units_chunk [OF d2, of i] i by simp
  next
    case 4
    then show ?thesis using units_chunk [OF d3, of i] i by simp
  qed
qed

lemma wd_z64 [simp]: "wd z64 = 0"
  by (simp add: z64_replicate)

lemma wd_unit_bits: "i < 64 \<Longrightarrow> wd (unit_bits i) = 2 ^ i"
  by (simp add: unit_bits_def wd_unit)

lemma length_unit_bits: "i < 64 \<Longrightarrow> length (unit_bits i) = 64"
  by (simp add: unit_bits_def)

lemma length_z64 [simp]: "length z64 = 64"
  by (simp add: z64_replicate)

lemma ev_unit_state:
  assumes r: "ev_sh q x (z64, z64, z64, z64) = (z64, z64, z64, z64)" and w: "wf_sh x"
  shows "ev q (st_of x) = zero_state"
proof -
  have "st_of (ev_sh q x (z64, z64, z64, z64)) =
      xor_state (st_of (z64, z64, z64, z64)) (ev q (st_of x))"
    by (rule ev_sh_correct [OF w]) simp
  then show ?thesis by (simp add: r zero_state_def [symmetric])
qed

lemma ann_unit0: "i < 64 \<Longrightarrow> ev c_lsb \<lparr>s0 = 2 ^ i, s1 = 0, s2 = 0, s3 = 0\<rparr> = zero_state"
  using ev_unit_state [OF units_all [OF units_0_0 units_0_16 units_0_32 units_0_48, of i], of]
  by (simp add: emb0_def wd_unit_bits length_unit_bits)

lemma ann_unit1: "i < 64 \<Longrightarrow> ev c_lsb \<lparr>s0 = 0, s1 = 2 ^ i, s2 = 0, s3 = 0\<rparr> = zero_state"
  using ev_unit_state [OF units_all [OF units_1_0 units_1_16 units_1_32 units_1_48, of i], of]
  by (simp add: emb1_def wd_unit_bits length_unit_bits)

lemma ann_unit2: "i < 64 \<Longrightarrow> ev c_lsb \<lparr>s0 = 0, s1 = 0, s2 = 2 ^ i, s3 = 0\<rparr> = zero_state"
  using ev_unit_state [OF units_all [OF units_2_0 units_2_16 units_2_32 units_2_48, of i], of]
  by (simp add: emb2_def wd_unit_bits length_unit_bits)

lemma ann_unit3: "i < 64 \<Longrightarrow> ev c_lsb \<lparr>s0 = 0, s1 = 0, s2 = 0, s3 = 2 ^ i\<rparr> = zero_state"
  using ev_unit_state [OF units_all [OF units_3_0 units_3_16 units_3_32 units_3_48, of i], of]
  by (simp add: emb3_def wd_unit_bits length_unit_bits)

lemma ann_word0: "ev c_lsb \<lparr>s0 = w, s1 = 0, s2 = 0, s3 = 0\<rparr> = zero_state"
proof (induction w rule: word64_xor_induct)
  case zero
  show ?case by (simp add: zero_state_def [symmetric])
next
  case (xor a b)
  have "\<lparr>s0 = a XOR b, s1 = 0, s2 = 0, s3 = 0\<rparr> =
      xor_state \<lparr>s0 = a, s1 = 0, s2 = 0, s3 = 0\<rparr> \<lparr>s0 = b, s1 = 0, s2 = 0, s3 = 0\<rparr>"
    by (simp add: xor_state_def)
  then show ?case by (simp only: ev_xor_state xor xor_state_self)
next
  case (unit i)
  then show ?case by (rule ann_unit0)
qed

lemma ann_word1: "ev c_lsb \<lparr>s0 = 0, s1 = w, s2 = 0, s3 = 0\<rparr> = zero_state"
proof (induction w rule: word64_xor_induct)
  case zero
  show ?case by (simp add: zero_state_def [symmetric])
next
  case (xor a b)
  have "\<lparr>s0 = 0, s1 = a XOR b, s2 = 0, s3 = 0\<rparr> =
      xor_state \<lparr>s0 = 0, s1 = a, s2 = 0, s3 = 0\<rparr> \<lparr>s0 = 0, s1 = b, s2 = 0, s3 = 0\<rparr>"
    by (simp add: xor_state_def)
  then show ?case by (simp only: ev_xor_state xor xor_state_self)
next
  case (unit i)
  then show ?case by (rule ann_unit1)
qed

lemma ann_word2: "ev c_lsb \<lparr>s0 = 0, s1 = 0, s2 = w, s3 = 0\<rparr> = zero_state"
proof (induction w rule: word64_xor_induct)
  case zero
  show ?case by (simp add: zero_state_def [symmetric])
next
  case (xor a b)
  have "\<lparr>s0 = 0, s1 = 0, s2 = a XOR b, s3 = 0\<rparr> =
      xor_state \<lparr>s0 = 0, s1 = 0, s2 = a, s3 = 0\<rparr> \<lparr>s0 = 0, s1 = 0, s2 = b, s3 = 0\<rparr>"
    by (simp add: xor_state_def)
  then show ?case by (simp only: ev_xor_state xor xor_state_self)
next
  case (unit i)
  then show ?case by (rule ann_unit2)
qed

lemma ann_word3: "ev c_lsb \<lparr>s0 = 0, s1 = 0, s2 = 0, s3 = w\<rparr> = zero_state"
proof (induction w rule: word64_xor_induct)
  case zero
  show ?case by (simp add: zero_state_def [symmetric])
next
  case (xor a b)
  have "\<lparr>s0 = 0, s1 = 0, s2 = 0, s3 = a XOR b\<rparr> =
      xor_state \<lparr>s0 = 0, s1 = 0, s2 = 0, s3 = a\<rparr> \<lparr>s0 = 0, s1 = 0, s2 = 0, s3 = b\<rparr>"
    by (simp add: xor_state_def)
  then show ?case by (simp only: ev_xor_state xor xor_state_self)
next
  case (unit i)
  then show ?case by (rule ann_unit3)
qed

lemma ann_all: "ev c_lsb s = zero_state"
proof -
  have "s = xor_state (xor_state \<lparr>s0 = s0 s, s1 = 0, s2 = 0, s3 = 0\<rparr> \<lparr>s0 = 0, s1 = s1 s, s2 = 0, s3 = 0\<rparr>)
      (xor_state \<lparr>s0 = 0, s1 = 0, s2 = s2 s, s3 = 0\<rparr> \<lparr>s0 = 0, s1 = 0, s2 = 0, s3 = s3 s\<rparr>)"
    by (simp add: xor_state_def)
  then have "ev c_lsb s = ev c_lsb (xor_state (xor_state \<lparr>s0 = s0 s, s1 = 0, s2 = 0, s3 = 0\<rparr> \<lparr>s0 = 0, s1 = s1 s, s2 = 0, s3 = 0\<rparr>)
      (xor_state \<lparr>s0 = 0, s1 = 0, s2 = s2 s, s3 = 0\<rparr> \<lparr>s0 = 0, s1 = 0, s2 = 0, s3 = s3 s\<rparr>))"
    by simp
  also have "\<dots> = zero_state"
    by (simp only: ev_xor_state ann_word0 ann_word1 ann_word2 ann_word3 xor_state_self)
  finally show ?thesis .
qed

lemma ann: "evm (True # c_low) s = zero_state"
  by (simp only: evm_def c_lsb_def [symmetric] ann_all)

section \<open>Multiplication modulo the characteristic polynomial\<close>

lemma next_256: "(next_state ^^ 256) s = evm c_low s"
proof -
  have "xor_state (evm c_low s) ((next_state ^^ 256) s) = zero_state"
    using ann [of s] by (simp add: evm_Cons length_c_low)
  then show ?thesis by (simp add: xor_state_eq_zero)
qed

lemma length_shl_xor: "length cs = Suc (length xs) \<Longrightarrow> length (shl_xor xs cs) = length cs"
  by (simp add: shl_xor_xorl)

lemma length_mulx: "length m = 256 \<Longrightarrow> length (mulx c_low m) = 256"
proof (cases m)
  case Nil
  then show "length m = 256 \<Longrightarrow> ?thesis" by simp
next
  case (Cons x xs)
  then show "length m = 256 \<Longrightarrow> ?thesis"
    by (cases x) (simp_all add: length_shl_xor length_c_low)
qed

lemma evm_mulx:
  assumes "length m = 256"
  shows "evm (mulx c_low m) s = next_state (evm m s)"
proof (cases m)
  case Nil
  with assms show ?thesis by simp
next
  case (Cons x xs)
  with assms have len: "length xs = 255" by simp
  show ?thesis
  proof (cases x)
    case True
    have "mulx c_low m = xorl (xs @ [False]) c_low"
      using Cons True len by (simp add: shl_xor_xorl length_c_low)
    then have "evm (mulx c_low m) s = xor_state (evm (xs @ [False]) s) (evm c_low s)"
      using len by (simp add: evm_xorl length_c_low)
    also have "\<dots> = xor_state (next_state (evm xs s)) ((next_state ^^ 256) s)"
      by (simp add: evm_snoc next_256)
    also have "(next_state ^^ 256) s = next_state ((next_state ^^ 255) s)"
    proof -
      have "(next_state ^^ Suc 255) s = next_state ((next_state ^^ 255) s)"
        by (simp only: funpow.simps o_apply)
      then show ?thesis by simp
    qed
    finally show ?thesis
      using Cons True len by (simp add: evm_Cons next_state_xor)
  next
    case False
    then show ?thesis using Cons by (simp add: evm_Cons evm_snoc)
  qed
qed

lemma pmh_correct:
  assumes "length b = 256" and "length r = 256"
  shows "length (pmh c_low a b r) = 256 \<and>
    evm (pmh c_low a b r) s = xor_state ((next_state ^^ length a) (evm r s)) (evm a (evm b s))"
  using assms(2)
proof (induction a arbitrary: r)
  case Nil
  then show ?case by simp
next
  case (Cons x as)
  show ?case
  proof (cases x)
    case True
    have l: "length (xorl (mulx c_low r) b) = 256"
      using Cons.prems assms(1) by (simp add: length_mulx)
    have e: "evm (xorl (mulx c_low r) b) s = xor_state (next_state (evm r s)) (evm b s)"
      using Cons.prems assms(1) by (simp add: evm_xorl length_mulx evm_mulx)
    show ?thesis
      using Cons.IH [OF l] True
      by (simp add: e funpow_next_xor funpow_swap1 evm_Cons evm_funpow xor_state_ac)
  next
    case False
    have l: "length (mulx c_low r) = 256" using Cons.prems by (simp add: length_mulx)
    show ?thesis
      using Cons.IH [OF l] False Cons.prems
      by (simp add: evm_mulx funpow_swap1 evm_Cons)
  qed
qed

lemma xorl_self: "xorl a a = replicate (length a) False"
proof (induction a)
  case Nil
  show ?case by simp
next
  case (Cons x a)
  then show ?case by (cases x) simp_all
qed

lemma evm_replicate_False [simp]: "evm (replicate n False) s = zero_state"
  by (simp add: evm_def)

lemma pmul_correct:
  assumes "length b = 256"
  shows "length (pmul a b) = 256 \<and> evm (pmul a b) s = evm a (evm b s)"
  using pmh_correct [OF assms, of "xorl c_low c_low" a s]
  by (simp add: pmul_def length_c_low) (simp add: xorl_self)

lemma sq_correct:
  assumes "length q = 256"
  shows "length (sq q) = 256 \<and> evm (sq q) s = evm q (evm q s)"
  using pmul_correct [OF assms, of q s] by (simp add: sq_def)

section \<open>The jump polynomial is a power of x\<close>

text \<open>
  Starting from \<open>x\<close>, 128 squarings modulo the characteristic polynomial, sixteen at a
  time, end in the polynomial of the jump constants.
\<close>

lemmas poly_eval_simps =
  sq16_def sq_def pmul_def pmh.simps mulx.simps shl_xor.simps xorl.simps append.simps
  hexpoly.simps hexbits_simps c_low_def

lemma sq_chunk_1:
  "sq16 (hexpoly ''0000000000000000000000000000000000000000000000000000000000000002'') =
   hexpoly ''d87f8ce230817a21ef43beaa06f02fb892ae7ca370c0bf6b7e89ac5ca2fbf2c7''"
  by (simp only: poly_eval_simps)

lemma sq_chunk_2:
  "sq16 (hexpoly ''d87f8ce230817a21ef43beaa06f02fb892ae7ca370c0bf6b7e89ac5ca2fbf2c7'') =
   hexpoly ''0e055d3520fdb9d7214fafc0fbdbc2087d8d0632bd08e6ac58120d583c112f69''"
  by (simp only: poly_eval_simps)

lemma sq_chunk_3:
  "sq16 (hexpoly ''0e055d3520fdb9d7214fafc0fbdbc2087d8d0632bd08e6ac58120d583c112f69'') =
   hexpoly ''5f728be2c97e9066474579292f705634f825539dee5e4763f11fb4faea62c7f1''"
  by (simp only: poly_eval_simps)

lemma sq_chunk_4:
  "sq16 (hexpoly ''5f728be2c97e9066474579292f705634f825539dee5e4763f11fb4faea62c7f1'') =
   hexpoly ''12e4a2fbfc19bff934faff184785c20ab60d6c5b8c78f106b13c16e8096f0754''"
  by (simp only: poly_eval_simps)

lemma sq_chunk_5:
  "sq16 (hexpoly ''12e4a2fbfc19bff934faff184785c20ab60d6c5b8c78f106b13c16e8096f0754'') =
   hexpoly ''2c09ebb60b81941a5d23c239088b488e0355dab5aaada3566c1a4d1bee4cfb25''"
  by (simp only: poly_eval_simps)

lemma sq_chunk_6:
  "sq16 (hexpoly ''2c09ebb60b81941a5d23c239088b488e0355dab5aaada3566c1a4d1bee4cfb25'') =
   hexpoly ''31eebb6c82a9615fb27c05962ea56a13cdb45d7def42c317148c356c3114b7a9''"
  by (simp only: poly_eval_simps)

lemma sq_chunk_7:
  "sq16 (hexpoly ''31eebb6c82a9615fb27c05962ea56a13cdb45d7def42c317148c356c3114b7a9'') =
   hexpoly ''19809df824096ba19a5475c8d2fb2d20e903694ada9d6795ff09f37df22eab9a''"
  by (simp only: poly_eval_simps)

lemma sq_chunk_8:
  "sq16 (hexpoly ''19809df824096ba19a5475c8d2fb2d20e903694ada9d6795ff09f37df22eab9a'') =
   hexpoly ''39abdc4529b1661ca9582618e03fc9aad5a61266f0c9392c180ec6d33cfd0aba''"
  by (simp only: poly_eval_simps)

lemma sq_iter_add: "sq_iter (m + n) q = sq_iter n (sq_iter m q)"
  by (induction m arbitrary: q) simp_all

lemma sq_iter_16: "sq_iter 16 q = sq16 q"
  by (simp add: sq16_def eval_nat_numeral)

lemma sq_iter_128: "sq_iter 128 xpoly = jump_poly"
proof -
  have "sq_iter 128 xpoly = sq_iter (16 + 16 + 16 + 16 + 16 + 16 + 16 + 16) xpoly"
    by simp
  also have "\<dots> = sq16 (sq16 (sq16 (sq16 (sq16 (sq16 (sq16 (sq16 xpoly)))))))"
    by (simp only: sq_iter_add sq_iter_16)
  also have "\<dots> = jump_poly"
    unfolding xpoly_def jump_poly_def
    by (simp only: sq_chunk_1 sq_chunk_2 sq_chunk_3 sq_chunk_4 sq_chunk_5 sq_chunk_6
        sq_chunk_7 sq_chunk_8)
  finally show ?thesis .
qed

lemma sq_iter_correct:
  assumes "length q = 256" and "\<And>s. evm q s = (next_state ^^ m) s"
  shows "length (sq_iter n q) = 256 \<and> evm (sq_iter n q) s = (next_state ^^ (m * 2 ^ n)) s"
  using assms
proof (induction n arbitrary: q m s)
  case 0
  then show ?case by simp
next
  case (Suc n)
  have l: "length (sq q) = 256" using sq_correct [OF Suc.prems(1)] by simp
  have e: "evm (sq q) t = (next_state ^^ (m + m)) t" for t
    using sq_correct [OF Suc.prems(1), of t] by (simp add: Suc.prems(2) funpow_add)
  from Suc.IH [OF l e, of s] show ?case by (simp add: mult_2 algebra_simps)
qed

lemma length_xpoly: "length xpoly = 256"
  by (simp add: xpoly_def)

lemma evm_xpoly: "evm xpoly s = next_state s"
proof -
  have "xpoly = replicate 254 False @ [True, False]"
    by (simp add: xpoly_def replicate_append_same numeral_eq_Suc)
  then have "rev xpoly = [False, True] @ replicate 254 False"
    by simp
  then show ?thesis
    unfolding evm_def by (simp only: ev_append) simp
qed

lemma evm_jump_poly: "evm jump_poly s = (next_state ^^ (2 ^ 128)) s"
  using sq_iter_correct [OF length_xpoly, of 1 128 s]
  by (simp add: evm_xpoly sq_iter_128)

lemma jump_bits_poly: "jump_bits_lsb = rev jump_poly"
  by (simp add: jump_bits_lsb_def jump_def jump_poly_def upt_rec bit_numeral_simps)

lemma jump_pow: "ranxoshi256Jump s = (next_state ^^ (2 ^ 128)) s"
  by (simp only: jump_ev jump_bits_poly evm_def [symmetric] evm_jump_poly)

section \<open>The jump against a few steps\<close>

text \<open>
  For \<open>k\<close> from 0 to 64 the polynomial \<open>jump_poly + x\<^sup>k\<close> has an inverse modulo the
  characteristic polynomial, so the jump and \<open>k\<close> steps agree on the zero state only.
\<close>

lemmas inv_eval_simps =
  invs_ok.simps one_poly_def jump_poly_def pmul_def pmh.simps mulx.simps shl_xor.simps
  xorl.simps append.simps hexpoly.simps hexbits_simps c_low_def simp_thms

lemma invs_chunk_0:
  "invs_ok one_poly jump_poly
     (hexpoly ''0000000000000000000000000000000000000000000000000000000000000001'')
     [''2676a01eb94590ab36de0ce5ae64c989bcf81f57c1700052a4c3118442a86a29'',
      ''d3e43f0ef614af5ea2364978fae5e5deb6c3ccc2358308971a19fde8172d124b'',
      ''255c2b10cb4412c2ba6cda22cbe75588ba209e590fb855031348cdf2262278de'',
      ''3478b93fd0d70c5132df0d395a82a627dbbf54bcbd4a06834685d1f5202e4ce9'',
      ''83607e4f67077dc593bda6a73a04bd8cf84285cfceab8dbd7f97e328dc823f3f'',
      ''4a52e1dc3a3fb2efd9b6c4e3d87e35d261b347f0ae8b354bc6a8983269049802'',
      ''dc595f8d9dc3752bb11968925cfb493edce418e1957689d00ae283ca497b67f9'',
      ''6869feb23aafb9795a4ca633d103da2747739ccd9ee48a6e8faec29d454e6f0a'',
      ''fc7fb1a49779c66a17d234c59a8daef71aa7f13c1f8f0527e1dd5096400bd6ec'',
      ''65f1e5df340fbb1e7b0d2384288e118d1c40e449172b71dc83d48a26911ba599'',
      ''05aed9c9186b9a2f88c9a9d1ab23311122a269ec8e29694593274bd230666249'',
      ''53b6b6531584c05f65a26fb244d0fa540f193d6925cbeb3e0d12315f3ca84050'',
      ''3717029d8881bf271a290d495a44f16b86ddcb8e66eebdb2f51a0b47ffd37856'']"
  by (simp only: inv_eval_simps)

lemma invs_chunk_1:
  "invs_ok one_poly jump_poly
     (hexpoly ''0000000000000000000000000000000000000000000000000000000000002000'')
     [''ca8a55d6bf80c9077ccebf91e6e39a596d5c5f70f70c1b70e1470411e39574bc'',
      ''dd9443238b7b8b3061241aba69f437b1b66e9e9cdcc8ddc13d845d4479309a8d'',
      ''f3211bb0486d1f74c381e161ba9d72ac2e0b91f1ca7c9c597dbeed698b49a192'',
      ''134a95dbe6cada033a20d39802d6609a27a6e7bc7948f6d17ebef83050b7753e'',
      ''f2bcbfa48b99835bf4734fa9bff471fcc70657a3ea1a99604ae4caba84ed68e3'',
      ''7b25efda5ce0da17ec73ca2785761ad086d4b820cecb361937aac70dfb5581ba'',
      ''1277f135ca29aeec64b1c69319724da259b44f86bed98007ea8a06ba2c88cb86'',
      ''16fcb416fb1a08c7beaf1f7b202c63a598f22ceced7da856e9e96ef3c3c2a7fb'',
      ''485577f2e9174320262ae48e786919bbe778795f2248dc92bf9d7d4b16199844'',
      ''22afc7843a0f0f9d38cd8d0f249ab9cfd435b39bd303cfe8fde10cbf4a2226a7'',
      ''e892e47f1e7f1f067ada3c51c676736676ec01f7e43371d8d34dbe661f9e2d0c'',
      ''0d5d9a5b37183cef062b313bed48436b752a7b01c487f37fb3a943923196f679'',
      ''086c5680d1819af244874e386eaa48a3d6b44bf8e553d214fb691b19e187677b'']"
  by (simp only: inv_eval_simps)

lemma invs_chunk_2:
  "invs_ok one_poly jump_poly
     (hexpoly ''0000000000000000000000000000000000000000000000000000000004000000'')
     [''dfb79c6a436d6590ef2aa446429a5426638ab21a032e23ec0c31ab6d1a741000'',
      ''aa7c2ad294db1ad3b857f29d1475e08acea68fcd3e6d2fdd3c6e329ca3522e90'',
      ''4a260385ba53bec819bc3ca40736e756c645a9b644ab8a468585178b66b45090'',
      ''84ad7edbc26254473ceb00e237f9f9d6578d8936507ebc0f8e94b82392a1fc81'',
      ''6cb52a2111dbd6eba7ccbd7faf89f6ef55d70abd390bd05d37928067465b3daf'',
      ''d007ad0ed85c4835f4b65103853233a30a325af6dcabaafe5d6be74b1d8194a4'',
      ''e1edeab5f21a74c879793f23ad64edb04ecdcf3f519b04fd75fa9e9629be39bf'',
      ''422da20d43ada402f9234cb86932d15631ae4a51d96c11c1875523b5111473d5'',
      ''123600816ea5cb2deb2f94415c8ddaae3fef830b1359f30dcedac92494a2932b'',
      ''ea818e31c044b2125b238b8ab8ad2238477e7a3afb5b136d6b1b39f43c358a88'',
      ''506706c8c96004cb4def99c4f449f85f02e0780cf22ba9f7172c43843fb60cb3'',
      ''866e4dfed20d1d76a986622c36c1a507b34a0400f5a6d971664c4e592dfa6c55'',
      ''781b72eab9c616e78b247c1eb7c9bccd7f8d6adb822868df80401d70613cf926'']"
  by (simp only: inv_eval_simps)

lemma invs_chunk_3:
  "invs_ok one_poly jump_poly
     (hexpoly ''0000000000000000000000000000000000000000000000000000008000000000'')
     [''c0ab33b21c169f278d306fb0ef0448904b2b173ab574da2fa3621537e2284c43'',
      ''ed5cd40b9ace4bf1cc47878a9615ba30c6da3a302c05b1ce14b602261726ad95'',
      ''a80005bbe1e21d7bf04eddaf86d9b7a9ef84b12cdabe9ad6696b61366c03ff29'',
      ''19331b22c0c4dddebfaf42dc12291cf450a374ee8cbea50fbbca53549c327e5e'',
      ''180524129be2087e606866fc65b977630c2a0aa0a78f862a0eba47d216d9b32f'',
      ''ff8f138262abeccc5976d0d401629efa238f49a3802489bdd9b9e3c1057a2150'',
      ''b12c06ae0ed0de0ea1ef18048836410abaa36b3c1057fd6b9eb2cd567294f96b'',
      ''1db87bea2c52fc6cd51197e0e4262ea3c0bf74110105a932a32d0e1f6e2a2dac'',
      ''ebb068548ef56a316b16a301a1b458d60856e3a28c605fd4580395ae1bb497ff'',
      ''4e8dc9e702b1becdd313fca5306870946421a41fa48e9dd2f839322f91cd74fc'',
      ''c46f74207f170ddebe06bfde595fc7cd4cf5716f2bb3e331cff9e3b8360d071b'',
      ''4585eae618cc58dc0c3064053fdd6f81124741d0e3e8b4d719ac9b3c9dfdcdb9'',
      ''6ce41a88330f203833c7a50f37e9bb60d6cfacc7a58a72095faba7e606ded52b'']"
  by (simp only: inv_eval_simps)

lemma invs_chunk_4:
  "invs_ok one_poly jump_poly
     (hexpoly ''0000000000000000000000000000000000000000000000000010000000000000'')
     [''980e58bf550e6a852416fe7181f8e6a534769e8cd069980a01b8f3d8b091edb6'',
      ''4ef3cd536593a7f5d35c18cf9c4202a5d23acaac981726a91c85e20c1fefd993'',
      ''34fcf0453aa80d15beedd469f135a9a089c7be46beb928924bd925eea3a145c8'',
      ''138b0363f6783e2a357dcbbc07485e0a48421d35101535ef78f12ecc92df515f'',
      ''6712e7bbfed80e562aaf6e81c020bc4e49f5fcece55875e7a5073fe50ab7d9e8'',
      ''cb086b32a2b22bfc779ac6efaea980421411673c4c291f71a9faa1d9bd4f0872'',
      ''2558b855d81c3d5575694f258b9e4876b6aaf79eab38e957fada80a42650abd7'',
      ''4d92475ec4c17c31ea1c2d736dd01488a69a081d9cfadae2f872bfa14cf56cb5'',
      ''040b9e6fccc2f96671e11e56baeb256def02b0785c449274d6c0e993e4e81d04'',
      ''b8568c55d9f334e9671ed5434a0b94f7d39462c188b02c8c92fe7886e7fa9d5a'',
      ''728f41fbbfcb0b809ae23a1e610b9a850ffd3bf138f8774bd7ca2f6697e2d18f'',
      ''dca322bd6e5388e09f0ce6783665b75fecc128b8f98ab485d2111b11491689cc'',
      ''1abd92a9d471984c0d73d5e0621984ad9db6e051fc67e7b57c9747be9969594c'']"
  by (simp only: inv_eval_simps)

lemma evm_x_pow:
  "evm (replicate m False @ True # replicate k False) s = (next_state ^^ k) s"
proof -
  have "rev (replicate m False @ True # replicate k False) =
      replicate k False @ True # replicate m False"
    by simp
  then show ?thesis
    unfolding evm_def by (simp only: ev_append) simp
qed

lemma x_pow_hex:
  "hexpoly ''0000000000000000000000000000000000000000000000000000000000000001'' =
     replicate 255 False @ True # replicate 0 False"
  "hexpoly ''0000000000000000000000000000000000000000000000000000000000002000'' =
     replicate 242 False @ True # replicate 13 False"
  "hexpoly ''0000000000000000000000000000000000000000000000000000000004000000'' =
     replicate 229 False @ True # replicate 26 False"
  "hexpoly ''0000000000000000000000000000000000000000000000000000008000000000'' =
     replicate 216 False @ True # replicate 39 False"
  "hexpoly ''0000000000000000000000000000000000000000000000000010000000000000'' =
     replicate 203 False @ True # replicate 52 False"
  by (simp_all add: replicate_append_same numeral_eq_Suc)

lemma length_hexpoly: "length (hexpoly cs) = 4 * length cs"
  by (induction cs) simp_all

lemma length_jump_poly: "length jump_poly = 256"
  by (simp add: jump_poly_def length_hexpoly)

lemma evm_one_poly: "evm one_poly s = s"
  unfolding one_poly_def x_pow_hex by (simp only: evm_x_pow) simp

lemma invs_ok_sound:
  assumes "invs_ok one_poly p xk us" and "length xk = 256" and "length p = 256"
    and "\<And>t. evm xk t = (next_state ^^ k) t"
    and "j < length us" and "evm p s = (next_state ^^ (k + j)) s"
  shows "s = zero_state"
  using assms(1,2,4,5,6)
proof (induction us arbitrary: xk k j)
  case Nil
  then show ?case by simp
next
  case (Cons u us)
  show ?case
  proof (cases j)
    case 0
    let ?w = "xorl p xk"
    have lw: "length ?w = 256" using Cons.prems(2) assms(3) by simp
    have "evm ?w s = xor_state (evm p s) (evm xk s)"
      using Cons.prems(2) assms(3) by (simp add: evm_xorl)
    also have "\<dots> = zero_state"
      using Cons.prems(3) [of s] Cons.prems(5) 0 by simp
    finally have z: "evm ?w s = zero_state" .
    from Cons.prems(1) have "pmul (hexpoly u) ?w = one_poly" by simp
    then have "evm one_poly s = evm (pmul (hexpoly u) ?w) s" by simp
    also have "\<dots> = evm (hexpoly u) (evm ?w s)"
      using pmul_correct [OF lw] by simp
    finally show ?thesis by (simp add: evm_one_poly z)
  next
    case (Suc j')
    from Cons.prems(1) have ok: "invs_ok one_poly p (mulx c_low xk) us" by simp
    have l: "length (mulx c_low xk) = 256" using Cons.prems(2) by (rule length_mulx)
    have e: "evm (mulx c_low xk) t = (next_state ^^ Suc k) t" for t
      using Cons.prems(2,3) by (simp add: evm_mulx)
    from Cons.prems(4) Suc have j': "j' < length us" by simp
    from Cons.prems(5) Suc have "evm p s = (next_state ^^ (Suc k + j')) s" by simp
    from Cons.IH [OF ok l e j' this] show ?thesis .
  qed
qed

lemma invs_chunk_sound:
  assumes ok: "invs_ok one_poly jump_poly (replicate m False @ True # replicate k0 False) us"
    and mk: "m + k0 = 255"
    and k: "k0 \<le> k" "k < k0 + length us"
    and j: "ranxoshi256Jump s = (next_state ^^ k) s"
  shows "s = zero_state"
proof -
  have l: "length (replicate m False @ True # replicate k0 False) = 256"
    using mk by simp
  have e: "evm (replicate m False @ True # replicate k0 False) t = (next_state ^^ k0) t" for t
    by (rule evm_x_pow)
  from k have b: "k - k0 < length us" by simp
  have "evm jump_poly s = (next_state ^^ k) s"
    using j by (simp only: jump_ev jump_bits_poly evm_def)
  with k have p: "evm jump_poly s = (next_state ^^ (k0 + (k - k0))) s" by simp
  show ?thesis by (rule invs_ok_sound [OF ok l length_jump_poly e b p])
qed

lemma jump_not_few_steps:
  assumes "ranxoshi256Jump s = (next_state ^^ k) s" and "k \<le> 64"
  shows "s = zero_state"
proof -
  consider "k < 13" | "13 \<le> k" "k < 26" | "26 \<le> k" "k < 39" | "39 \<le> k" "k < 52"
    | "52 \<le> k" "k < 65"
    using assms(2) by linarith
  then show ?thesis
  proof cases
    case 1
    show ?thesis
      by (rule invs_chunk_sound [OF invs_chunk_0 [unfolded x_pow_hex] _ _ _ assms(1)])
         (use 1 in simp_all)
  next
    case 2
    show ?thesis
      by (rule invs_chunk_sound [OF invs_chunk_1 [unfolded x_pow_hex] _ _ _ assms(1)])
         (use 2 in simp_all)
  next
    case 3
    show ?thesis
      by (rule invs_chunk_sound [OF invs_chunk_2 [unfolded x_pow_hex] _ _ _ assms(1)])
         (use 3 in simp_all)
  next
    case 4
    show ?thesis
      by (rule invs_chunk_sound [OF invs_chunk_3 [unfolded x_pow_hex] _ _ _ assms(1)])
         (use 4 in simp_all)
  next
    case 5
    show ?thesis
      by (rule invs_chunk_sound [OF invs_chunk_4 [unfolded x_pow_hex] _ _ _ assms(1)])
         (use 5 in simp_all)
  qed
qed

text \<open>
  C4. For every state the jump gives the state that \<open>2\<^sup>1\<^sup>2\<^sup>8\<close> applications of the
  state transition of \<open>ranxoshi256Next\<close> give. For every state other than the all-zero
  one, this is none of the states reached by 0 to 64 applications. The all-zero state
  is a fixed point of the transition, so there the jump and a single step agree.
\<close>

theorem jump_is_2_128_steps:
  "ranxoshi256Jump s = (next_state ^^ (2 ^ 128)) s \<and>
   (s \<noteq> zero_state \<longrightarrow> k \<le> 64 \<longrightarrow> ranxoshi256Jump s \<noteq> (next_state ^^ k) s)"
  using jump_pow [of s] jump_not_few_steps [of s k] by blast

theorem jump_zero_state_counterexample:
  "ranxoshi256Jump zero_state = (next_state ^^ 1) zero_state"
  by (simp add: jump_pow)

theorem jump_is_2_128_steps_witness:
  "\<lparr>s0 = 1, s1 = 0, s2 = 0, s3 = 0\<rparr> \<noteq> zero_state \<and> (3::nat) \<le> 64 \<and>
   ranxoshi256Jump \<lparr>s0 = 1, s1 = 0, s2 = 0, s3 = 0\<rparr> =
     (next_state ^^ (2 ^ 128)) \<lparr>s0 = 1, s1 = 0, s2 = 0, s3 = 0\<rparr> \<and>
   ranxoshi256Jump \<lparr>s0 = 1, s1 = 0, s2 = 0, s3 = 0\<rparr> \<noteq>
     (next_state ^^ 3) \<lparr>s0 = 1, s1 = 0, s2 = 0, s3 = 0\<rparr>"
proof -
  have n: "\<lparr>s0 = 1, s1 = 0, s2 = 0, s3 = 0\<rparr> \<noteq> zero_state"
    by (simp add: zero_state_def)
  have b: "(3::nat) \<le> 64" by simp
  from jump_is_2_128_steps [of "\<lparr>s0 = 1, s1 = 0, s2 = 0, s3 = 0\<rparr>" 3] n b
  show ?thesis by blast
qed

end
